theory Spec2Isabelle
  imports Complex_Main "HOL-Library.Monad_Syntax"
begin

section \<open>Compressed row storage\<close>

text \<open>
  The kernels of \<^verbatim>\<open>amg_core/ruge_stuben.h\<close> work on CSR triples: a row pointer array, a
  column index array and a data array. The index type \<^verbatim>\<open>I\<close> of the templates is modelled
  by \<open>nat\<close> for the arrays a caller passes in (a well-formed CSR array holds no negative
  number) and arithmetic on it is taken without overflow. The scalar type \<^verbatim>\<open>T\<close> is a
  linearly ordered field: sums, products, comparisons and \<^verbatim>\<open>std::max\<close> are exact, so
  rounding is outside the model.
\<close>

definition csr_wf :: "nat \<Rightarrow> nat \<Rightarrow> nat list \<Rightarrow> nat list \<Rightarrow> 'a list \<Rightarrow> bool" where
  "csr_wf n_row n_col Ap Aj Ax =
     (length Ap = n_row + 1 \<and> Ap ! 0 = 0 \<and> sorted Ap \<and>
      length Aj = Ap ! n_row \<and> length Ax = Ap ! n_row \<and> list_all (\<lambda>j. j < n_col) Aj)"

text \<open>Row \<open>i\<close> of a CSR matrix, as the list of its stored (column, value) pairs.\<close>

definition csr_row :: "nat list \<Rightarrow> nat list \<Rightarrow> 'a list \<Rightarrow> nat \<Rightarrow> (nat \<times> 'a) list" where
  "csr_row Ap Aj Ax i = map (\<lambda>jj. (Aj ! jj, Ax ! jj)) [Ap ! i ..< Ap ! (i + 1)]"

section \<open>Classical strength of connection\<close>

text \<open>
  Both kernels write \<^verbatim>\<open>Sj[nnz]\<close>, \<^verbatim>\<open>Sx[nnz]\<close> and then increment \<^verbatim>\<open>nnz\<close>, into
  storage the caller allocated. The model keeps the populated prefix of \<^verbatim>\<open>Sj\<close> and
  \<^verbatim>\<open>Sx\<close>: a write at \<^verbatim>\<open>nnz\<close> appends, and \<^verbatim>\<open>nnz\<close> is the length written so far.
  \<^verbatim>\<open>Sp[0] = 0\<close> and \<^verbatim>\<open>Sp[i+1] = nnz\<close> fill \<^verbatim>\<open>Sp\<close> from left to right in the same way.
  \<^verbatim>\<open>mynorm\<close> (from \<^verbatim>\<open>linalg.h\<close>) and \<^verbatim>\<open>std::numeric_limits<F>::min()\<close> are not part of
  this file of the repository and are parameters.
\<close>

definition abs_max_offdiagonal ::
  "('a \<Rightarrow> 'f::linorder) \<Rightarrow> 'f \<Rightarrow> nat list \<Rightarrow> 'a list \<Rightarrow> nat \<Rightarrow> nat \<Rightarrow> nat \<Rightarrow> 'f" where
  "abs_max_offdiagonal mynorm F_min Aj Ax i row_start row_end =
     fold (\<lambda>jj max_offdiagonal.
             if Aj ! jj \<noteq> i then max max_offdiagonal (mynorm (Ax ! jj)) else max_offdiagonal)
          [row_start ..< row_end] F_min"

definition abs_entry ::
  "('a \<Rightarrow> 'f::linorder) \<Rightarrow> nat list \<Rightarrow> 'a list \<Rightarrow> nat \<Rightarrow> 'f \<Rightarrow> nat \<Rightarrow>
   nat list \<times> 'a list \<Rightarrow> nat list \<times> 'a list" where
  "abs_entry mynorm Aj Ax i threshold jj S =
     (let norm_jj = mynorm (Ax ! jj);
          S1 = (if norm_jj \<ge> threshold
                then (if Aj ! jj \<noteq> i then (fst S @ [Aj ! jj], snd S @ [Ax ! jj]) else S)
                else S)
      in if Aj ! jj = i then (fst S1 @ [Aj ! jj], snd S1 @ [Ax ! jj]) else S1)"

definition classical_strength_of_connection_abs ::
  "('a \<Rightarrow> 'f::linordered_field) \<Rightarrow> 'f \<Rightarrow> nat \<Rightarrow> 'f \<Rightarrow> nat list \<Rightarrow> nat list \<Rightarrow> 'a list \<Rightarrow>
   nat list \<times> nat list \<times> 'a list" where
  "classical_strength_of_connection_abs mynorm F_min n_row theta Ap Aj Ax =
     fold (\<lambda>i (Sp, S).
             let row_start = Ap ! i;
                 row_end = Ap ! (i + 1);
                 max_offdiagonal = abs_max_offdiagonal mynorm F_min Aj Ax i row_start row_end;
                 threshold = theta * max_offdiagonal;
                 S' = fold (abs_entry mynorm Aj Ax i threshold) [row_start ..< row_end] S
             in (Sp @ [length (fst S')], S'))
          [0 ..< n_row] ([0], [], [])"

definition min_max_offdiagonal ::
  "nat list \<Rightarrow> 'a::linordered_field list \<Rightarrow> nat \<Rightarrow> nat \<Rightarrow> nat \<Rightarrow> 'a" where
  "min_max_offdiagonal Aj Ax i row_start row_end =
     fold (\<lambda>jj max_offdiagonal.
             if Aj ! jj \<noteq> i then max max_offdiagonal (- (Ax ! jj)) else max_offdiagonal)
          [row_start ..< row_end] 0"

definition min_entry ::
  "nat list \<Rightarrow> 'a::linordered_field list \<Rightarrow> nat \<Rightarrow> 'a \<Rightarrow> nat \<Rightarrow>
   nat list \<times> 'a list \<Rightarrow> nat list \<times> 'a list" where
  "min_entry Aj Ax i threshold jj S =
     (let norm_jj = - (Ax ! jj);
          S1 = (if norm_jj \<ge> threshold
                then (if Aj ! jj \<noteq> i then (fst S @ [Aj ! jj], snd S @ [Ax ! jj]) else S)
                else S)
      in if Aj ! jj = i then (fst S1 @ [Aj ! jj], snd S1 @ [Ax ! jj]) else S1)"

definition classical_strength_of_connection_min ::
  "nat \<Rightarrow> 'a::linordered_field \<Rightarrow> nat list \<Rightarrow> nat list \<Rightarrow> 'a list \<Rightarrow>
   nat list \<times> nat list \<times> 'a list" where
  "classical_strength_of_connection_min n_row theta Ap Aj Ax =
     fold (\<lambda>i (Sp, S).
             let row_start = Ap ! i;
                 row_end = Ap ! (i + 1);
                 max_offdiagonal = min_max_offdiagonal Aj Ax i row_start row_end;
                 threshold = theta * max_offdiagonal;
                 S' = fold (min_entry Aj Ax i threshold) [row_start ..< row_end] S
             in (Sp @ [length (fst S')], S'))
          [0 ..< n_row] ([0], [], [])"

text \<open>
  \<^verbatim>\<open>maximum_row_value\<close> stores the \<^verbatim>\<open>F\<close>-valued maximum into the \<^verbatim>\<open>T\<close> array \<^verbatim>\<open>x\<close>;
  the implicit conversion of that store is the parameter \<open>F_to_T\<close>.
\<close>

definition maximum_row_value ::
  "('a \<Rightarrow> 'f::linorder) \<Rightarrow> 'f \<Rightarrow> ('f \<Rightarrow> 'a) \<Rightarrow> nat \<Rightarrow> 'a list \<Rightarrow> nat list \<Rightarrow> nat list \<Rightarrow> 'a list \<Rightarrow>
   'a list" where
  "maximum_row_value mynorm F_min F_to_T n_row x Ap Aj Ax =
     fold (\<lambda>i x.
             let row_start = Ap ! i;
                 row_end = Ap ! (i + 1);
                 max_entry = fold (\<lambda>jj max_entry. max max_entry (mynorm (Ax ! jj)))
                                  [row_start ..< row_end] F_min
             in x[i := F_to_T max_entry])
          [0 ..< n_row] x"

text \<open>
  Reading the result back: row \<open>i\<close> of the triple a strength kernel returns, and the offset at
  which the rows \<open>R 0\<close>, ..., \<open>R (m - 1)\<close> written one after the other end.
\<close>

definition row_offset :: "(nat \<Rightarrow> 'e list) \<Rightarrow> nat \<Rightarrow> nat" where
  "row_offset R m = length (concat (map R [0 ..< m]))"

definition soc_row :: "nat list \<times> nat list \<times> 'a list \<Rightarrow> nat \<Rightarrow> (nat \<times> 'a) list" where
  "soc_row S i = csr_row (fst S) (fst (snd S)) (snd (snd S)) i"

text \<open>
  The spec's criterion for \<^verbatim>\<open>classical_strength_of_connection_min\<close>, in its words: the
  maximum of \<open>- A[i,k]\<close> over the off-diagonal entries stored in row \<open>i\<close>
  (\<open>strong_min_claimed\<close>), and the same with the maximum taken together with \<open>0\<close>
  (\<open>strong_min_clamped\<close>).
\<close>

definition offdiag_negated :: "(nat \<times> 'a::linordered_field) list \<Rightarrow> nat \<Rightarrow> 'a set" where
  "offdiag_negated row i = {- snd e | e. e \<in> set row \<and> fst e \<noteq> i}"

definition strong_min_claimed :: "'a::linordered_field \<Rightarrow> (nat \<times> 'a) list \<Rightarrow> nat \<Rightarrow> 'a \<Rightarrow> bool" where
  "strong_min_claimed theta row i a = (- a \<ge> theta * Max (offdiag_negated row i))"

definition strong_min_clamped :: "'a::linordered_field \<Rightarrow> (nat \<times> 'a) list \<Rightarrow> nat \<Rightarrow> 'a \<Rightarrow> bool" where
  "strong_min_clamped theta row i a = (- a \<ge> theta * Max (insert 0 (offdiag_negated row i)))"

section \<open>Node tags\<close>

definition F_NODE :: nat where "F_NODE = 0"
definition C_NODE :: nat where "C_NODE = 1"
definition U_NODE :: nat where "U_NODE = 2"

section \<open>Direct interpolation\<close>

text \<open>
  The first pass counts the entries of each row of the prolongator and writes the row
  pointer \<^verbatim>\<open>Bp\<close> from left to right (\<^verbatim>\<open>Bp[0] = 0\<close>, then \<^verbatim>\<open>Bp[i+1] = nnz\<close>).
\<close>

definition rs_direct_interpolation_pass1 ::
  "nat \<Rightarrow> nat list \<Rightarrow> nat list \<Rightarrow> nat list \<Rightarrow> nat list" where
  "rs_direct_interpolation_pass1 n_nodes Sp Sj splitting =
     snd (fold (\<lambda>i (nnz, Bp).
             let nnz' = (if splitting ! i = C_NODE then nnz + 1
                         else fold (\<lambda>jj nnz.
                                if splitting ! (Sj ! jj) = C_NODE \<and> Sj ! jj \<noteq> i then nnz + 1 else nnz)
                              [Sp ! i ..< Sp ! (i + 1)] nnz)
             in (nnz', Bp @ [nnz']))
          [0 ..< n_nodes] (0, [0]))"

text \<open>
  The second pass writes into the caller's arrays \<^verbatim>\<open>Bj\<close> and \<^verbatim>\<open>Bx\<close> at the positions
  \<^verbatim>\<open>Bp\<close> gives, so both are arguments and are updated in place. Division is HOL's total
  division (\<open>x / 0 = 0\<close>) where IEEE arithmetic gives an infinity or a NaN; the kernel
  discards \<^verbatim>\<open>beta\<close> when \<^verbatim>\<open>sum_strong_pos\<close> is zero.
\<close>

definition direct_strong_sums ::
  "nat list \<Rightarrow> nat list \<Rightarrow> 'a::linordered_field list \<Rightarrow> nat list \<Rightarrow> nat \<Rightarrow> 'a \<times> 'a" where
  "direct_strong_sums Sp Sj Sx splitting i =
     fold (\<lambda>jj (sum_strong_pos, sum_strong_neg).
             if splitting ! (Sj ! jj) = C_NODE \<and> Sj ! jj \<noteq> i
             then (if Sx ! jj < 0 then (sum_strong_pos, sum_strong_neg + Sx ! jj)
                   else (sum_strong_pos + Sx ! jj, sum_strong_neg))
             else (sum_strong_pos, sum_strong_neg))
          [Sp ! i ..< Sp ! (i + 1)] (0, 0)"

definition direct_all_sums ::
  "nat list \<Rightarrow> nat list \<Rightarrow> 'a::linordered_field list \<Rightarrow> nat \<Rightarrow> 'a \<times> 'a \<times> 'a" where
  "direct_all_sums Ap Aj Ax i =
     fold (\<lambda>jj (sum_all_pos, sum_all_neg, diag).
             if Aj ! jj = i then (sum_all_pos, sum_all_neg, diag + Ax ! jj)
             else (if Ax ! jj < 0 then (sum_all_pos, sum_all_neg + Ax ! jj, diag)
                   else (sum_all_pos + Ax ! jj, sum_all_neg, diag)))
          [Ap ! i ..< Ap ! (i + 1)] (0, 0, 0)"

definition direct_row ::
  "nat list \<Rightarrow> nat list \<Rightarrow> 'a::linordered_field list \<Rightarrow> nat list \<Rightarrow> nat list \<Rightarrow> 'a list \<Rightarrow>
   nat list \<Rightarrow> nat list \<Rightarrow> nat \<Rightarrow> nat list \<times> 'a list \<Rightarrow> nat list \<times> 'a list" where
  "direct_row Ap Aj Ax Sp Sj Sx splitting Bp i B =
     (if splitting ! i = C_NODE
      then ((fst B)[Bp ! i := i], (snd B)[Bp ! i := 1])
      else
        let (sum_strong_pos, sum_strong_neg) = direct_strong_sums Sp Sj Sx splitting i;
            (sum_all_pos, sum_all_neg, diag0) = direct_all_sums Ap Aj Ax i;
            alpha = sum_all_neg / sum_strong_neg;
            beta0 = sum_all_pos / sum_strong_pos;
            diag = (if sum_strong_pos = 0 then diag0 + sum_all_pos else diag0);
            beta = (if sum_strong_pos = 0 then 0 else beta0);
            neg_coeff = - alpha / diag;
            pos_coeff = - beta / diag
        in snd (fold (\<lambda>jj (nnz, Bj, Bx).
                   if splitting ! (Sj ! jj) = C_NODE \<and> Sj ! jj \<noteq> i
                   then (nnz + 1, Bj[nnz := Sj ! jj],
                         Bx[nnz := (if Sx ! jj < 0 then neg_coeff * Sx ! jj else pos_coeff * Sx ! jj)])
                   else (nnz, Bj, Bx))
                [Sp ! i ..< Sp ! (i + 1)] (Bp ! i, B)))"

text \<open>\<^verbatim>\<open>map[i]\<close> is the number of C-nodes before \<open>i\<close>: the coarse index of a C-node.\<close>

definition coarse_map :: "nat \<Rightarrow> nat list \<Rightarrow> nat list" where
  "coarse_map n_nodes splitting =
     snd (fold (\<lambda>i (sum, map). (sum + splitting ! i, map[i := sum]))
            [0 ..< n_nodes] (0, replicate n_nodes 0))"

definition rs_direct_interpolation_pass2 ::
  "nat \<Rightarrow> nat list \<Rightarrow> nat list \<Rightarrow> 'a::linordered_field list \<Rightarrow> nat list \<Rightarrow> nat list \<Rightarrow> 'a list \<Rightarrow>
   nat list \<Rightarrow> nat list \<Rightarrow> nat list \<Rightarrow> 'a list \<Rightarrow> nat list \<times> 'a list" where
  "rs_direct_interpolation_pass2 n_nodes Ap Aj Ax Sp Sj Sx splitting Bp Bj Bx =
     (let B = fold (direct_row Ap Aj Ax Sp Sj Sx splitting Bp) [0 ..< n_nodes] (Bj, Bx);
          map = coarse_map n_nodes splitting
      in (fold (\<lambda>i Bj. Bj[i := map ! (Bj ! i)]) [0 ..< Bp ! n_nodes] (fst B), snd B))"

section \<open>Removing strong F-F connections without a common C-point\<close>

text \<open>
  The test of one pair \<open>(row, j)\<close>: the loop over the entries \<open>ii\<close> of row \<open>row\<close> stops
  (\<^verbatim>\<open>break\<close>) as soon as \<^verbatim>\<open>dependence\<close> is set; the loop over row \<open>j\<close> runs to its end.
\<close>

fun dependence_scan ::
  "nat list \<Rightarrow> nat list \<Rightarrow> nat list \<Rightarrow> nat \<Rightarrow> nat list \<Rightarrow> bool \<Rightarrow> bool" where
  "dependence_scan C_rowptr C_colinds splitting j [] dependence = dependence"
| "dependence_scan C_rowptr C_colinds splitting j (ii # iis) dependence =
     (let row_ind = C_colinds ! ii;
          dependence' = (if splitting ! row_ind = C_NODE
                         then fold (\<lambda>kk dependence. if C_colinds ! kk = row_ind then True else dependence)
                                [C_rowptr ! j ..< C_rowptr ! (j + 1)] dependence
                         else dependence)
      in if dependence' then dependence'
         else dependence_scan C_rowptr C_colinds splitting j iis dependence')"

definition remove_strong_FF_connections ::
  "nat \<Rightarrow> nat list \<Rightarrow> nat list \<Rightarrow> 'a::zero list \<Rightarrow> nat list \<Rightarrow> 'a list" where
  "remove_strong_FF_connections n_nodes C_rowptr C_colinds C_data splitting =
     fold (\<lambda>row C_data.
             if splitting ! row = F_NODE
             then fold (\<lambda>jj C_data.
                     let j = C_colinds ! jj
                     in if splitting ! j = F_NODE
                        then (if dependence_scan C_rowptr C_colinds splitting j
                                   [C_rowptr ! row ..< C_rowptr ! (row + 1)] False
                              then C_data else C_data[jj := 0])
                        else C_data)
                  [C_rowptr ! row ..< C_rowptr ! (row + 1)] C_data
             else C_data)
          [0 ..< n_nodes] C_data"

text \<open>
  The spec's description of the entries that are zeroed: position \<open>e\<close> lies in an F-row
  \<open>row\<close>, its column \<open>j\<close> is an F-node, and no C-node is a stored column of both row
  \<open>row\<close> and row \<open>j\<close>.
\<close>

definition csr_cols :: "nat list \<Rightarrow> nat list \<Rightarrow> nat \<Rightarrow> nat set" where
  "csr_cols C_rowptr C_colinds i = {C_colinds ! kk | kk. C_rowptr ! i \<le> kk \<and> kk < C_rowptr ! (i + 1)}"

definition ff_without_common_C :: "nat \<Rightarrow> nat list \<Rightarrow> nat list \<Rightarrow> nat list \<Rightarrow> nat \<Rightarrow> bool" where
  "ff_without_common_C n_nodes C_rowptr C_colinds splitting e =
     (\<exists>row < n_nodes. C_rowptr ! row \<le> e \<and> e < C_rowptr ! (row + 1) \<and>
        splitting ! row = F_NODE \<and> splitting ! (C_colinds ! e) = F_NODE \<and>
        \<not> (\<exists>m. splitting ! m = C_NODE \<and> m \<in> csr_cols C_rowptr C_colinds row \<and>
                 m \<in> csr_cols C_rowptr C_colinds (C_colinds ! e)))"

section \<open>CLJP splitting\<close>

text \<open>
  The working arrays of \<^verbatim>\<open>cljp_naive_splitting\<close> that live across the selection loop.
  \<^verbatim>\<open>weight\<close> is a \<^verbatim>\<open>double\<close> array, modelled in a linearly ordered field. The arrays
  \<^verbatim>\<open>D\<close> and \<^verbatim>\<open>Dlist\<close> are rebuilt in every round: \<^verbatim>\<open>D[i]\<close> is only read in the iteration
  that wrote it and is a local value here, \<^verbatim>\<open>Dlist[0 .. nD-1]\<close> is a list. The counter
  \<^verbatim>\<open>pass\<close> is never read and is left out.
\<close>

record 'w cljp_state =
  cs_splitting :: "nat list"
  cs_weight :: "'w list"
  cs_edgemark :: "int list"
  cs_c_dep_cache :: "int list"
  cs_unassigned :: int

text \<open>
  The two scans of the selection step: is there a U-node \<open>j\<close> in the row with
  \<^verbatim>\<open>weight[j] > weight[i]\<close>? The scan stops at the first one (\<^verbatim>\<open>break\<close>).
\<close>

fun heavier_neighbour :: "nat list \<Rightarrow> nat list \<Rightarrow> 'w::linorder list \<Rightarrow> nat \<Rightarrow> nat list \<Rightarrow> bool" where
  "heavier_neighbour Xj splitting weight i [] = False"
| "heavier_neighbour Xj splitting weight i (jj # jjs) =
     (let j = Xj ! jj
      in if splitting ! j = U_NODE \<and> weight ! j > weight ! i then True
         else heavier_neighbour Xj splitting weight i jjs)"

definition cljp_select ::
  "nat \<Rightarrow> nat list \<Rightarrow> nat list \<Rightarrow> nat list \<Rightarrow> nat list \<Rightarrow> ('w::linorder) cljp_state \<Rightarrow> nat list \<times> int" where
  "cljp_select n Sp Sj Tp Tj s =
     fold (\<lambda>i (Dlist, unassigned).
             if cs_splitting s ! i = U_NODE
             then (let D_row = \<not> heavier_neighbour Sj (cs_splitting s) (cs_weight s) i
                                   [Sp ! i ..< Sp ! (i + 1)];
                       D_col = (if D_row
                                then \<not> heavier_neighbour Tj (cs_splitting s) (cs_weight s) i
                                         [Tp ! i ..< Tp ! (i + 1)]
                                else D_row)
                   in if D_col then (Dlist @ [i], unassigned - 1) else (Dlist, unassigned))
             else (Dlist, unassigned))
          [0 ..< n] ([], cs_unassigned s)"

text \<open>
  The block that P5 and P6 share: clear the edge mark, decrement the weight of the node
  and, when the weight falls below 1, make the node an F-node.
\<close>

definition cljp_remove_edge :: "nat \<Rightarrow> nat \<Rightarrow> ('w::linordered_field) cljp_state \<Rightarrow> 'w cljp_state" where
  "cljp_remove_edge jj j s =
     (let s' = s\<lparr>cs_edgemark := (cs_edgemark s)[jj := 0],
                 cs_weight := (cs_weight s)[j := cs_weight s ! j - 1]\<rparr>
      in if cs_weight s' ! j < 1
         then s'\<lparr>cs_splitting := (cs_splitting s')[j := F_NODE],
                 cs_unassigned := cs_unassigned s' - 1\<rparr>
         else s')"

definition cljp_P5_entry :: "nat list \<Rightarrow> nat \<Rightarrow> ('w::linordered_field) cljp_state \<Rightarrow> 'w cljp_state" where
  "cljp_P5_entry Sj jj s =
     (let j = Sj ! jj
      in if cs_splitting s ! j = U_NODE \<and> cs_edgemark s ! jj \<noteq> 0
         then cljp_remove_edge jj j s else s)"

definition cljp_P5 :: "nat list \<Rightarrow> nat list \<Rightarrow> nat \<Rightarrow> ('w::linordered_field) cljp_state \<Rightarrow> 'w cljp_state" where
  "cljp_P5 Sp Sj c s = fold (cljp_P5_entry Sj) [Sp ! c ..< Sp ! (c + 1)] s"

definition cljp_P6_mark :: "nat list \<Rightarrow> nat \<Rightarrow> nat \<Rightarrow> 'w cljp_state \<Rightarrow> 'w cljp_state" where
  "cljp_P6_mark Tj c jj s =
     (let j = Tj ! jj
      in if cs_splitting s ! j = U_NODE
         then s\<lparr>cs_c_dep_cache := (cs_c_dep_cache s)[j := int c]\<rparr> else s)"

definition cljp_P6_entry :: "nat list \<Rightarrow> nat \<Rightarrow> nat \<Rightarrow> ('w::linordered_field) cljp_state \<Rightarrow> 'w cljp_state" where
  "cljp_P6_entry Sj c kk s =
     (let k = Sj ! kk
      in if cs_splitting s ! k = U_NODE \<and> cs_edgemark s ! kk \<noteq> 0
         then (if cs_c_dep_cache s ! k = int c then cljp_remove_edge kk k s else s)
         else s)"

definition cljp_P6_row :: "nat list \<Rightarrow> nat list \<Rightarrow> nat list \<Rightarrow> nat \<Rightarrow> nat \<Rightarrow> ('w::linordered_field) cljp_state \<Rightarrow> 'w cljp_state" where
  "cljp_P6_row Sp Sj Tj c jj s =
     (let j = Tj ! jj
      in fold (cljp_P6_entry Sj c) [Sp ! j ..< Sp ! (j + 1)] s)"

definition cljp_P6 ::
  "nat list \<Rightarrow> nat list \<Rightarrow> nat list \<Rightarrow> nat list \<Rightarrow> nat \<Rightarrow> ('w::linordered_field) cljp_state \<Rightarrow> 'w cljp_state" where
  "cljp_P6 Sp Sj Tp Tj c s =
     (let s1 = fold (cljp_P6_mark Tj c) [Tp ! c ..< Tp ! (c + 1)] s
      in fold (cljp_P6_row Sp Sj Tj c) [Tp ! c ..< Tp ! (c + 1)] s1)"

definition cljp_round ::
  "nat \<Rightarrow> nat list \<Rightarrow> nat list \<Rightarrow> nat list \<Rightarrow> nat list \<Rightarrow> ('w::linordered_field) cljp_state \<Rightarrow> 'w cljp_state" where
  "cljp_round n Sp Sj Tp Tj s =
     (let (Dlist, unassigned) = cljp_select n Sp Sj Tp Tj s;
          s1 = s\<lparr>cs_splitting := fold (\<lambda>c splitting. splitting[c := C_NODE]) Dlist (cs_splitting s),
                 cs_unassigned := unassigned\<rparr>;
          s2 = fold (cljp_P5 Sp Sj) Dlist s1
      in fold (cljp_P6 Sp Sj Tp Tj) Dlist s2)"

text \<open>
  The selection loop \<^verbatim>\<open>while (unassigned > 0)\<close> has no bound in the source; not
  returning is the value \<open>None\<close>.
\<close>

partial_function (option) cljp_selection_loop ::
  "nat \<Rightarrow> nat list \<Rightarrow> nat list \<Rightarrow> nat list \<Rightarrow> nat list \<Rightarrow> ('w::linordered_field) cljp_state \<Rightarrow>
   'w cljp_state option" where
  "cljp_selection_loop n Sp Sj Tp Tj s =
     (if cs_unassigned s > 0
      then cljp_selection_loop n Sp Sj Tp Tj (cljp_round n Sp Sj Tp Tj s)
      else Some s)"

declare cljp_selection_loop.simps [code]

text \<open>
  The initial weights. \<^verbatim>\<open>vertex_coloring_mis\<close> (from \<^verbatim>\<open>graph.h\<close>), and \<^verbatim>\<open>srand\<close>,
  \<^verbatim>\<open>rand\<close> and \<^verbatim>\<open>RAND_MAX\<close> of the C library, are parameters.
  \<open>vertex_coloring_mis n Sp Sj\<close> is the content of the vector \<^verbatim>\<open>coloring\<close>, of \<open>n\<close>
  entries, after the call. With \<open>n = 0\<close> the vector is empty, \<^verbatim>\<open>std::max_element\<close>
  returns its end and the kernel dereferences it: undefined behaviour, \<open>None\<close> here.
  The generator of the C library is global state: the caller's state \<open>g\<close> comes in and
  the state after the call goes out; \<open>srand seed\<close> is the state after seeding, which the
  C standard makes a function of the seed alone.
\<close>

definition cljp_color_weights :: "int list \<Rightarrow> nat \<Rightarrow> ('w::linordered_field) list option" where
  "cljp_color_weights coloring n =
     (if n = 0 then None
      else let ncolors = fold max (take n coloring) (coloring ! 0) + 1
           in Some (map (\<lambda>i. of_int (coloring ! i) / of_int ncolors) [0 ..< n]))"

fun cljp_rand_weights :: "('g \<Rightarrow> int \<times> 'g) \<Rightarrow> int \<Rightarrow> nat \<Rightarrow> 'g \<Rightarrow> ('w::linordered_field) list \<times> 'g" where
  "cljp_rand_weights rand RAND_MAX 0 g = ([], g)"
| "cljp_rand_weights rand RAND_MAX (Suc n) g =
     (let (r, g1) = rand g;
          (ws, g2) = cljp_rand_weights rand RAND_MAX n g1
      in (of_int r / of_int RAND_MAX # ws, g2))"

definition cljp_add_degrees :: "nat \<Rightarrow> nat list \<Rightarrow> nat list \<Rightarrow> ('w::linordered_field) list \<Rightarrow> 'w list" where
  "cljp_add_degrees n Sp Sj weight =
     fold (\<lambda>i weight.
             fold (\<lambda>jj weight.
                    let j = Sj ! jj
                    in if i \<noteq> j then weight[j := weight ! j + 1] else weight)
                  [Sp ! i ..< Sp ! (i + 1)] weight)
          [0 ..< n] weight"

definition cljp_initial_weights ::
  "(nat \<Rightarrow> nat list \<Rightarrow> nat list \<Rightarrow> int list) \<Rightarrow> (nat \<Rightarrow> 'g) \<Rightarrow> ('g \<Rightarrow> int \<times> 'g) \<Rightarrow> int \<Rightarrow> 'g \<Rightarrow>
   nat \<Rightarrow> nat list \<Rightarrow> nat list \<Rightarrow> int \<Rightarrow> (('w::linordered_field) list \<times> 'g) option" where
  "cljp_initial_weights vertex_coloring_mis srand rand RAND_MAX g n Sp Sj colorflag =
     (if colorflag = 1
      then (case cljp_color_weights (vertex_coloring_mis n Sp Sj) n of
              None \<Rightarrow> None
            | Some weight \<Rightarrow> Some (weight, g))
      else Some (cljp_rand_weights rand RAND_MAX n (srand 2448422)))"

definition cljp_initial_state ::
  "(nat \<Rightarrow> nat list \<Rightarrow> nat list \<Rightarrow> int list) \<Rightarrow> (nat \<Rightarrow> 'g) \<Rightarrow> ('g \<Rightarrow> int \<times> 'g) \<Rightarrow> int \<Rightarrow> 'g \<Rightarrow>
   nat \<Rightarrow> nat list \<Rightarrow> nat list \<Rightarrow> int \<Rightarrow> (('w::linordered_field) cljp_state \<times> 'g) option" where
  "cljp_initial_state vertex_coloring_mis srand rand RAND_MAX g n Sp Sj colorflag =
     (case cljp_initial_weights vertex_coloring_mis srand rand RAND_MAX g n Sp Sj colorflag of
        None \<Rightarrow> None
      | Some wg \<Rightarrow>
          Some (\<lparr>cs_splitting = replicate n U_NODE,
                 cs_weight = cljp_add_degrees n Sp Sj (fst wg),
                 cs_edgemark = replicate (Sp ! n) 1,
                 cs_c_dep_cache = replicate n (- 1),
                 cs_unassigned = int n\<rparr>, snd wg))"

text \<open>
  The whole kernel returns the splitting and the state of the generator. The last loops
  turn every remaining U-node into an F-node (and rewrite the local \<^verbatim>\<open>edgemark\<close>, which
  is then freed). The weights are taken in the rationals.
\<close>

definition cljp_naive_splitting ::
  "(nat \<Rightarrow> nat list \<Rightarrow> nat list \<Rightarrow> int list) \<Rightarrow> (nat \<Rightarrow> 'g) \<Rightarrow> ('g \<Rightarrow> int \<times> 'g) \<Rightarrow> int \<Rightarrow> 'g \<Rightarrow>
   nat \<Rightarrow> nat list \<Rightarrow> nat list \<Rightarrow> nat list \<Rightarrow> nat list \<Rightarrow> int \<Rightarrow> (nat list \<times> 'g) option" where
  "cljp_naive_splitting vertex_coloring_mis srand rand RAND_MAX g n Sp Sj Tp Tj colorflag =
     (case (cljp_initial_state vertex_coloring_mis srand rand RAND_MAX g n Sp Sj colorflag
              :: (rat cljp_state \<times> 'g) option) of
        None \<Rightarrow> None
      | Some sg \<Rightarrow>
          (case cljp_selection_loop n Sp Sj Tp Tj (fst sg) of
             None \<Rightarrow> None
           | Some s \<Rightarrow>
               Some (fold (\<lambda>i splitting. if splitting ! i = U_NODE then splitting[i := F_NODE] else splitting)
                       [0 ..< n] (cs_splitting s), snd sg)))"

text \<open>
  What the splitting kernels ask of a strength pattern over \<open>n\<close> nodes (the CSR
  invariants without the data array), the set of unassigned nodes, and the relation
  between the counter \<^verbatim>\<open>unassigned\<close> and the splitting array that the selection loop keeps.
\<close>

definition csr_pattern_wf :: "nat \<Rightarrow> nat list \<Rightarrow> nat list \<Rightarrow> bool" where
  "csr_pattern_wf n Ap Aj =
     (length Ap = n + 1 \<and> Ap ! 0 = 0 \<and> sorted Ap \<and> length Aj = Ap ! n \<and> list_all (\<lambda>j. j < n) Aj)"

definition U_set :: "nat list \<Rightarrow> nat set" where
  "U_set splitting = {i. i < length splitting \<and> splitting ! i = U_NODE}"

definition cljp_inv :: "nat \<Rightarrow> 'w cljp_state \<Rightarrow> bool" where
  "cljp_inv n s =
     (length (cs_splitting s) = n \<and> cs_unassigned s = int (card (U_set (cs_splitting s))) \<and>
      list_all (\<lambda>x. x = F_NODE \<or> x = C_NODE \<or> x = U_NODE) (cs_splitting s))"

text \<open>The test of the selection step, read off the two scans.\<close>

definition cljp_selected ::
  "nat list \<Rightarrow> nat list \<Rightarrow> nat list \<Rightarrow> nat list \<Rightarrow> ('w::linorder) cljp_state \<Rightarrow> nat \<Rightarrow> bool" where
  "cljp_selected Sp Sj Tp Tj s i =
     (cs_splitting s ! i = U_NODE \<and>
      \<not> (\<exists>jj \<in> set [Sp ! i ..< Sp ! (i + 1)].
            cs_splitting s ! (Sj ! jj) = U_NODE \<and> cs_weight s ! (Sj ! jj) > cs_weight s ! i) \<and>
      \<not> (\<exists>jj \<in> set [Tp ! i ..< Tp ! (i + 1)].
            cs_splitting s ! (Tj ! jj) = U_NODE \<and> cs_weight s ! (Tj ! jj) > cs_weight s ! i))"

section \<open>Ruge-Stuben splitting\<close>

text \<open>
  \<^verbatim>\<open>rs_cf_splitting\<close> indexes its working vectors with values it reads from other
  vectors, so here every read and write is checked: an index outside the vector (undefined
  behaviour in the source) and a failed \<^verbatim>\<open>assert\<close> both end the run with \<open>None\<close>. The
  assertion is compiled out when \<^verbatim>\<open>NDEBUG\<close> is defined; the parameter \<open>NDEBUG\<close> says
  which build runs. The working vectors hold values of the signed index type \<^verbatim>\<open>I\<close> and
  are lists of \<open>int\<close>.
\<close>

definition rd :: "'a list \<Rightarrow> int \<Rightarrow> 'a option" where
  "rd xs i = (if 0 \<le> i \<and> i < int (length xs) then Some (xs ! nat i) else None)"

definition wr :: "'a list \<Rightarrow> int \<Rightarrow> 'a \<Rightarrow> 'a list option" where
  "wr xs i v = (if 0 \<le> i \<and> i < int (length xs) then Some (xs[nat i := v]) else None)"

text \<open>A \<^verbatim>\<open>for\<close> loop whose body can fail.\<close>

fun mfold :: "('a \<Rightarrow> 's \<Rightarrow> 's option) \<Rightarrow> 'a list \<Rightarrow> 's \<Rightarrow> 's option" where
  "mfold f [] s = Some s"
| "mfold f (x # xs) s = (case f x s of None \<Rightarrow> None | Some s' \<Rightarrow> mfold f xs s')"

text \<open>\<^verbatim>\<open>lambda[i] = Tp[i+1] - Tp[i]\<close>.\<close>

definition rs_compute_lambda :: "nat \<Rightarrow> nat list \<Rightarrow> int list option" where
  "rs_compute_lambda n_nodes Tp =
     mfold (\<lambda>i lambda. do {
              hi \<leftarrow> rd Tp (int i + 1);
              lo \<leftarrow> rd Tp (int i);
              wr lambda (int i) (int hi - int lo)
            })
       [0 ..< n_nodes] (replicate n_nodes 0)"

text \<open>
  The intervals: \<^verbatim>\<open>interval_ptr\<close> and \<^verbatim>\<open>interval_count\<close> have \<open>n_nodes + 1\<close> entries,
  \<^verbatim>\<open>index_to_node\<close> and \<^verbatim>\<open>node_to_index\<close> have \<open>n_nodes\<close> (\<^verbatim>\<open>std::vector\<close> sets them to
  zero). The second loop runs over \<open>i < n_nodes\<close> only.
\<close>

record rs_intervals =
  ri_interval_ptr :: "int list"
  ri_interval_count :: "int list"
  ri_index_to_node :: "int list"
  ri_node_to_index :: "int list"

definition rs_count_lambda :: "int list \<Rightarrow> nat \<Rightarrow> rs_intervals \<Rightarrow> rs_intervals option" where
  "rs_count_lambda lambda i v = do {
     lambda_i \<leftarrow> rd lambda (int i);
     c \<leftarrow> rd (ri_interval_count v) lambda_i;
     interval_count \<leftarrow> wr (ri_interval_count v) lambda_i (c + 1);
     Some (v\<lparr>ri_interval_count := interval_count\<rparr>)
   }"

definition rs_cumulate :: "nat \<Rightarrow> int \<times> rs_intervals \<Rightarrow> (int \<times> rs_intervals) option" where
  "rs_cumulate i cv = do {
     interval_ptr \<leftarrow> wr (ri_interval_ptr (snd cv)) (int i) (fst cv);
     c \<leftarrow> rd (ri_interval_count (snd cv)) (int i);
     interval_count \<leftarrow> wr (ri_interval_count (snd cv)) (int i) 0;
     Some (fst cv + c, (snd cv)\<lparr>ri_interval_ptr := interval_ptr, ri_interval_count := interval_count\<rparr>)
   }"

definition rs_place :: "int list \<Rightarrow> nat \<Rightarrow> rs_intervals \<Rightarrow> rs_intervals option" where
  "rs_place lambda i v = do {
     lambda_i \<leftarrow> rd lambda (int i);
     p \<leftarrow> rd (ri_interval_ptr v) lambda_i;
     c \<leftarrow> rd (ri_interval_count v) lambda_i;
     index_to_node \<leftarrow> wr (ri_index_to_node v) (p + c) (int i);
     node_to_index \<leftarrow> wr (ri_node_to_index v) (int i) (p + c);
     interval_count \<leftarrow> wr (ri_interval_count v) lambda_i (c + 1);
     Some (v\<lparr>ri_index_to_node := index_to_node, ri_node_to_index := node_to_index,
             ri_interval_count := interval_count\<rparr>)
   }"

definition rs_make_intervals :: "nat \<Rightarrow> int list \<Rightarrow> rs_intervals option" where
  "rs_make_intervals n_nodes lambda = do {
     v1 \<leftarrow> mfold (rs_count_lambda lambda) [0 ..< n_nodes]
             \<lparr>ri_interval_ptr = replicate (n_nodes + 1) 0, ri_interval_count = replicate (n_nodes + 1) 0,
              ri_index_to_node = replicate n_nodes 0, ri_node_to_index = replicate n_nodes 0\<rparr>;
     cv \<leftarrow> mfold rs_cumulate [0 ..< n_nodes] (0, v1);
     mfold (rs_place lambda) [0 ..< n_nodes] (snd cv)
   }"

text \<open>
  The pre-pass: \<^verbatim>\<open>lambda[i] == 0 || (lambda[i] == 1 && Tj[Tp[i]] == i)\<close>; the right
  operands are only evaluated when the left ones do not decide.
\<close>

definition rs_no_neighbors :: "int list \<Rightarrow> nat list \<Rightarrow> nat list \<Rightarrow> nat \<Rightarrow> bool option" where
  "rs_no_neighbors lambda Tp Tj i = do {
     lambda_i \<leftarrow> rd lambda (int i);
     if lambda_i = 0 then Some True
     else if lambda_i = 1 then do {
       t \<leftarrow> rd Tp (int i);
       j \<leftarrow> rd Tj (int t);
       Some (j = i)
     }
     else Some False
   }"

definition rs_prepass :: "nat \<Rightarrow> int list \<Rightarrow> nat list \<Rightarrow> nat list \<Rightarrow> nat list option" where
  "rs_prepass n_nodes lambda Tp Tj =
     mfold (\<lambda>i splitting. do {
              b \<leftarrow> rs_no_neighbors lambda Tp Tj i;
              if b then wr splitting (int i) F_NODE else Some splitting
            })
       [0 ..< n_nodes] (replicate n_nodes U_NODE)"

text \<open>The state of the main loop.\<close>

record rs_state =
  rs_lambda :: "int list"
  rs_interval_ptr :: "int list"
  rs_interval_count :: "int list"
  rs_index_to_node :: "int list"
  rs_node_to_index :: "int list"
  rs_splitting :: "nat list"

text \<open>
  Exchange the nodes at \<open>old_pos\<close> and \<open>new_pos\<close>: the two writes to
  \<^verbatim>\<open>node_to_index\<close>, then \<^verbatim>\<open>std::swap\<close> on \<^verbatim>\<open>index_to_node\<close>.
\<close>

definition rs_swap :: "int \<Rightarrow> int \<Rightarrow> rs_state \<Rightarrow> rs_state option" where
  "rs_swap old_pos new_pos s = do {
     a \<leftarrow> rd (rs_index_to_node s) old_pos;
     n2i1 \<leftarrow> wr (rs_node_to_index s) a new_pos;
     b \<leftarrow> rd (rs_index_to_node s) new_pos;
     n2i2 \<leftarrow> wr n2i1 b old_pos;
     i2n1 \<leftarrow> wr (rs_index_to_node s) old_pos b;
     i2n2 \<leftarrow> wr i2n1 new_pos a;
     Some (s\<lparr>rs_node_to_index := n2i2, rs_index_to_node := i2n2\<rparr>)
   }"

text \<open>
  Move \<open>k\<close> to the end of its current interval and into the interval above
  (\<^verbatim>\<open>lambda[k]++\<close>).
\<close>

definition rs_move_up :: "int \<Rightarrow> int \<Rightarrow> rs_state \<Rightarrow> rs_state option" where
  "rs_move_up k lambda_k s = do {
     old_pos \<leftarrow> rd (rs_node_to_index s) k;
     p \<leftarrow> rd (rs_interval_ptr s) lambda_k;
     c \<leftarrow> rd (rs_interval_count s) lambda_k;
     s1 \<leftarrow> rs_swap old_pos (p + c - 1) s;
     cnt1 \<leftarrow> wr (rs_interval_count s1) lambda_k (c - 1);
     c' \<leftarrow> rd cnt1 (lambda_k + 1);
     cnt2 \<leftarrow> wr cnt1 (lambda_k + 1) (c' + 1);
     ptr1 \<leftarrow> wr (rs_interval_ptr s1) (lambda_k + 1) (p + c - 1);
     l \<leftarrow> rd (rs_lambda s1) k;
     lam1 \<leftarrow> wr (rs_lambda s1) k (l + 1);
     Some (s1\<lparr>rs_interval_count := cnt2, rs_interval_ptr := ptr1, rs_lambda := lam1\<rparr>)
   }"

text \<open>For \<open>k\<close> in row \<open>j\<close> of \<open>S\<close>, still a U-node and below the cap \<open>n_nodes - 1\<close>.\<close>

definition rs_increment :: "nat \<Rightarrow> nat list \<Rightarrow> nat \<Rightarrow> rs_state \<Rightarrow> rs_state option" where
  "rs_increment n_nodes Sj kk s = do {
     k \<leftarrow> rd Sj (int kk);
     tag \<leftarrow> rd (rs_splitting s) (int k);
     if tag = U_NODE then do {
       lambda_k \<leftarrow> rd (rs_lambda s) (int k);
       if lambda_k \<ge> int n_nodes - 1 then Some s else rs_move_up (int k) lambda_k s
     }
     else Some s
   }"

text \<open>For \<open>j\<close> in row \<open>i\<close> of the transpose, still a U-node: \<open>j\<close> becomes an F-node.\<close>

definition rs_influence :: "nat \<Rightarrow> nat list \<Rightarrow> nat list \<Rightarrow> nat list \<Rightarrow> nat \<Rightarrow> rs_state \<Rightarrow> rs_state option" where
  "rs_influence n_nodes Sp Sj Tj jj s = do {
     j \<leftarrow> rd Tj (int jj);
     tag \<leftarrow> rd (rs_splitting s) (int j);
     if tag = U_NODE then do {
       splitting \<leftarrow> wr (rs_splitting s) (int j) F_NODE;
       lo \<leftarrow> rd Sp (int j);
       hi \<leftarrow> rd Sp (int j + 1);
       mfold (rs_increment n_nodes Sj) [lo ..< hi] (s\<lparr>rs_splitting := splitting\<rparr>)
     }
     else Some s
   }"

text \<open>
  Move \<open>j\<close> to the beginning of its current interval and into the interval below
  (\<^verbatim>\<open>lambda[j]--\<close>).
\<close>

definition rs_move_down :: "int \<Rightarrow> int \<Rightarrow> rs_state \<Rightarrow> rs_state option" where
  "rs_move_down j lambda_j s = do {
     old_pos \<leftarrow> rd (rs_node_to_index s) j;
     new_pos \<leftarrow> rd (rs_interval_ptr s) lambda_j;
     s1 \<leftarrow> rs_swap old_pos new_pos s;
     c \<leftarrow> rd (rs_interval_count s1) lambda_j;
     cnt1 \<leftarrow> wr (rs_interval_count s1) lambda_j (c - 1);
     c' \<leftarrow> rd cnt1 (lambda_j - 1);
     cnt2 \<leftarrow> wr cnt1 (lambda_j - 1) (c' + 1);
     p \<leftarrow> rd (rs_interval_ptr s1) lambda_j;
     ptr1 \<leftarrow> wr (rs_interval_ptr s1) lambda_j (p + 1);
     p' \<leftarrow> rd ptr1 lambda_j;
     c'' \<leftarrow> rd cnt2 (lambda_j - 1);
     ptr2 \<leftarrow> wr ptr1 (lambda_j - 1) (p' - c'');
     l \<leftarrow> rd (rs_lambda s1) j;
     lam1 \<leftarrow> wr (rs_lambda s1) j (l - 1);
     Some (s1\<lparr>rs_interval_count := cnt2, rs_interval_ptr := ptr2, rs_lambda := lam1\<rparr>)
   }"

text \<open>For \<open>j\<close> in row \<open>i\<close> of \<open>S\<close>, still a U-node with \<open>lambda[j] \<noteq> 0\<close>.\<close>

definition rs_decrement :: "nat list \<Rightarrow> nat \<Rightarrow> rs_state \<Rightarrow> rs_state option" where
  "rs_decrement Sj jj s = do {
     j \<leftarrow> rd Sj (int jj);
     tag \<leftarrow> rd (rs_splitting s) (int j);
     if tag = U_NODE then do {
       lambda_j \<leftarrow> rd (rs_lambda s) (int j);
       if lambda_j = 0 then Some s else rs_move_down (int j) lambda_j s
     }
     else Some s
   }"

text \<open>
  One step of the main loop, for the node at \<open>top_index\<close>: the node leaves its interval;
  an F-node is passed over, a U-node becomes a C-node. A node that is neither fails the
  assertion, or is treated like a U-node when the assertion is compiled out.
\<close>

definition rs_select :: "nat \<Rightarrow> nat list \<Rightarrow> nat list \<Rightarrow> nat list \<Rightarrow> nat list \<Rightarrow> int \<Rightarrow> rs_state \<Rightarrow> rs_state option" where
  "rs_select n_nodes Sp Sj Tp Tj i s = do {
     splitting \<leftarrow> wr (rs_splitting s) i C_NODE;
     Tlo \<leftarrow> rd Tp i;
     Thi \<leftarrow> rd Tp (i + 1);
     s1 \<leftarrow> mfold (rs_influence n_nodes Sp Sj Tj) [Tlo ..< Thi] (s\<lparr>rs_splitting := splitting\<rparr>);
     Slo \<leftarrow> rd Sp i;
     Shi \<leftarrow> rd Sp (i + 1);
     mfold (rs_decrement Sj) [Slo ..< Shi] s1
   }"

definition rs_visit ::
  "bool \<Rightarrow> nat \<Rightarrow> nat list \<Rightarrow> nat list \<Rightarrow> nat list \<Rightarrow> nat list \<Rightarrow> nat \<Rightarrow> rs_state \<Rightarrow>
   rs_state option" where
  "rs_visit NDEBUG n_nodes Sp Sj Tp Tj top_index s = do {
     i \<leftarrow> rd (rs_index_to_node s) (int top_index);
     lambda_i \<leftarrow> rd (rs_lambda s) i;
     c \<leftarrow> rd (rs_interval_count s) lambda_i;
     interval_count \<leftarrow> wr (rs_interval_count s) lambda_i (c - 1);
     tag \<leftarrow> rd (rs_splitting s) i;
     if tag = F_NODE then Some (s\<lparr>rs_interval_count := interval_count\<rparr>)
     else if tag = U_NODE \<or> NDEBUG
          then rs_select n_nodes Sp Sj Tp Tj i (s\<lparr>rs_interval_count := interval_count\<rparr>)
          else None
   }"

definition rs_cf_splitting ::
  "bool \<Rightarrow> nat \<Rightarrow> nat list \<Rightarrow> nat list \<Rightarrow> nat list \<Rightarrow> nat list \<Rightarrow> nat list option" where
  "rs_cf_splitting NDEBUG n_nodes Sp Sj Tp Tj = do {
     lambda \<leftarrow> rs_compute_lambda n_nodes Tp;
     v \<leftarrow> rs_make_intervals n_nodes lambda;
     splitting \<leftarrow> rs_prepass n_nodes lambda Tp Tj;
     s \<leftarrow> mfold (rs_visit NDEBUG n_nodes Sp Sj Tp Tj) (rev [0 ..< n_nodes])
            \<lparr>rs_lambda = lambda, rs_interval_ptr = ri_interval_ptr v,
             rs_interval_count = ri_interval_count v, rs_index_to_node = ri_index_to_node v,
             rs_node_to_index = ri_node_to_index v, rs_splitting = splitting\<rparr>;
     Some (rs_splitting s)
   }"

text \<open>
  The stored entries \<open>(row, column)\<close> of a pattern, to say that one pattern is the
  transpose of another.
\<close>

definition csr_entries :: "nat \<Rightarrow> nat list \<Rightarrow> nat list \<Rightarrow> (nat \<times> nat) list" where
  "csr_entries n Ap Aj = concat (map (\<lambda>i. map (\<lambda>jj. (i, Aj ! jj)) [Ap ! i ..< Ap ! (i + 1)]) [0 ..< n])"

section \<open>Properties of the strength kernels\<close>

lemma append_pairs_fold_min:
  "fold (min_entry Aj Ax i thr) js S =
     (fst S @ map fst (filter (\<lambda>e. fst e = i \<or> thr \<le> - snd e) (map (\<lambda>jj. (Aj ! jj, Ax ! jj)) js)),
      snd S @ map snd (filter (\<lambda>e. fst e = i \<or> thr \<le> - snd e) (map (\<lambda>jj. (Aj ! jj, Ax ! jj)) js)))"
  by (induction js arbitrary: S) (auto simp: min_entry_def Let_def)

lemma append_pairs_fold_abs:
  "fold (abs_entry mynorm Aj Ax i thr) js S =
     (fst S @ map fst (filter (\<lambda>e. fst e = i \<or> thr \<le> mynorm (snd e)) (map (\<lambda>jj. (Aj ! jj, Ax ! jj)) js)),
      snd S @ map snd (filter (\<lambda>e. fst e = i \<or> thr \<le> mynorm (snd e)) (map (\<lambda>jj. (Aj ! jj, Ax ! jj)) js)))"
  by (induction js arbitrary: S) (auto simp: abs_entry_def Let_def)

lemma rows_fold:
  assumes g: "\<And>i S. g i S = (fst S @ map fst (R i), snd S @ map snd (R i))"
  shows "fold (\<lambda>i (Sp, S). (Sp @ [length (fst (g i S))], g i S)) [0 ..< k] ([0], [], []) =
         (map (row_offset R) [0 ..< Suc k],
          map fst (concat (map R [0 ..< k])), map snd (concat (map R [0 ..< k])))"
proof (induction k)
  case 0
  show ?case by (simp add: row_offset_def)
next
  case (Suc k)
  let ?F = "\<lambda>i (Sp, S). (Sp @ [length (fst (g i S))], g i S)"
  have "fold ?F [0 ..< Suc k] ([0], [], []) = ?F k (fold ?F [0 ..< k] ([0], [], []))"
    by simp
  also have "\<dots> = ?F k (map (row_offset R) [0 ..< Suc k],
          map fst (concat (map R [0 ..< k])), map snd (concat (map R [0 ..< k])))"
    by (simp only: Suc)
  also have "\<dots> = (map (row_offset R) [0 ..< Suc (Suc k)],
          map fst (concat (map R [0 ..< Suc k])), map snd (concat (map R [0 ..< Suc k])))"
    by (simp add: g row_offset_def)
  finally show ?case .
qed

lemma csr_row_concat:
  assumes "i < n"
  shows "csr_row (map (row_offset R) [0 ..< Suc n]) (map fst (concat (map R [0 ..< n])))
           (map snd (concat (map R [0 ..< n]))) i = R i"
proof -
  let ?E = "concat (map R [0 ..< n])"
  let ?pre = "concat (map R [0 ..< i])"
  let ?post = "concat (map R [Suc i ..< n])"
  have split: "[0 ..< n] = [0 ..< i] @ i # [Suc i ..< n]"
    using assms by (metis upt_conv_Cons upt_add_eq_append le0 less_imp_le_nat add_0 le_add_diff_inverse)
  have E: "?E = ?pre @ R i @ ?post"
    by (subst split) simp
  have p1: "map (row_offset R) [0 ..< Suc n] ! i = length ?pre"
    using assms by (simp add: row_offset_def nth_append del: upt_Suc)
  have p2: "map (row_offset R) [0 ..< Suc n] ! (i + 1) = length ?pre + length (R i)"
  proof -
    have "map (row_offset R) [0 ..< Suc n] ! (i + 1) = row_offset R (Suc i)"
      using assms by (simp del: upt_Suc)
    then show ?thesis by (simp add: row_offset_def)
  qed
  have "map (\<lambda>jj. (map fst ?E ! jj, map snd ?E ! jj)) [length ?pre ..< length ?pre + length (R i)] = R i"
    unfolding E by (rule nth_equalityI) (simp_all add: nth_append)
  then show ?thesis
    unfolding csr_row_def p1 p2 .
qed


lemma min_rows:
  "classical_strength_of_connection_min n theta Ap Aj Ax =
     (map (row_offset (\<lambda>i. filter (\<lambda>e. fst e = i \<or>
             theta * min_max_offdiagonal Aj Ax i (Ap ! i) (Ap ! (i + 1)) \<le> - snd e) (csr_row Ap Aj Ax i)))
          [0 ..< Suc n],
      map fst (concat (map (\<lambda>i. filter (\<lambda>e. fst e = i \<or>
             theta * min_max_offdiagonal Aj Ax i (Ap ! i) (Ap ! (i + 1)) \<le> - snd e) (csr_row Ap Aj Ax i)) [0 ..< n])),
      map snd (concat (map (\<lambda>i. filter (\<lambda>e. fst e = i \<or>
             theta * min_max_offdiagonal Aj Ax i (Ap ! i) (Ap ! (i + 1)) \<le> - snd e) (csr_row Ap Aj Ax i)) [0 ..< n])))"
  unfolding classical_strength_of_connection_min_def Let_def
  by (rule rows_fold) (simp add: append_pairs_fold_min csr_row_def)

lemma min_soc_row:
  "i < n \<Longrightarrow> soc_row (classical_strength_of_connection_min n theta Ap Aj Ax) i =
     filter (\<lambda>e. fst e = i \<or> theta * min_max_offdiagonal Aj Ax i (Ap ! i) (Ap ! (i + 1)) \<le> - snd e)
       (csr_row Ap Aj Ax i)"
  unfolding soc_row_def min_rows fst_conv snd_conv by (rule csr_row_concat)

lemma Max_insert_max:
  fixes a :: "'a::linorder"
  assumes "finite A"
  shows "Max (insert (max a b) A) = Max (insert a (insert b A))"
proof (cases "A = {}")
  case True
  then show ?thesis by simp
next
  case False
  then show ?thesis using assms by (simp add: max.assoc)
qed

lemma fold_max_Max:
  fixes m0 :: "'a::linorder"
  shows "fold (\<lambda>jj m. if P jj then max m (f jj) else m) js m0 =
         Max (insert m0 {f jj | jj. jj \<in> set js \<and> P jj})"
proof (induction js arbitrary: m0)
  case Nil
  show ?case by simp
next
  case (Cons j js)
  let ?A = "{f jj | jj. jj \<in> set js \<and> P jj}"
  have fin: "finite ?A" by simp
  show ?case
  proof (cases "P j")
    case True
    have eq: "{f jj | jj. jj \<in> set (j # js) \<and> P jj} = insert (f j) ?A"
      using True by auto
    have "Max (insert (max m0 (f j)) ?A) = Max (insert m0 (insert (f j) ?A))"
      using fin by (rule Max_insert_max)
    then show ?thesis
      unfolding eq using True by (simp add: Cons.IH)
  next
    case False
    have eq: "{f jj | jj. jj \<in> set (j # js) \<and> P jj} = ?A"
      using False by auto
    show ?thesis unfolding eq using False by (simp add: Cons.IH)
  qed
qed


lemma offdiag_negated_csr_row:
  "offdiag_negated (csr_row Ap Aj Ax i) i =
     {- (Ax ! jj) | jj. jj \<in> set [Ap ! i ..< Ap ! (i + 1)] \<and> Aj ! jj \<noteq> i}"
  unfolding offdiag_negated_def csr_row_def by force

lemma min_max_offdiagonal_Max:
  "min_max_offdiagonal Aj Ax i (Ap ! i) (Ap ! (i + 1)) =
     Max (insert 0 (offdiag_negated (csr_row Ap Aj Ax i) i))"
  unfolding min_max_offdiagonal_def offdiag_negated_csr_row by (rule fold_max_Max)

lemma abs_rows:
  "classical_strength_of_connection_abs mynorm F_min n theta Ap Aj Ax =
     (map (row_offset (\<lambda>i. filter (\<lambda>e. fst e = i \<or>
             theta * abs_max_offdiagonal mynorm F_min Aj Ax i (Ap ! i) (Ap ! (i + 1)) \<le> mynorm (snd e)) (csr_row Ap Aj Ax i)))
          [0 ..< Suc n],
      map fst (concat (map (\<lambda>i. filter (\<lambda>e. fst e = i \<or>
             theta * abs_max_offdiagonal mynorm F_min Aj Ax i (Ap ! i) (Ap ! (i + 1)) \<le> mynorm (snd e)) (csr_row Ap Aj Ax i)) [0 ..< n])),
      map snd (concat (map (\<lambda>i. filter (\<lambda>e. fst e = i \<or>
             theta * abs_max_offdiagonal mynorm F_min Aj Ax i (Ap ! i) (Ap ! (i + 1)) \<le> mynorm (snd e)) (csr_row Ap Aj Ax i)) [0 ..< n])))"
  unfolding classical_strength_of_connection_abs_def Let_def
  by (rule rows_fold) (simp add: append_pairs_fold_abs csr_row_def)

lemma abs_soc_row:
  "i < n \<Longrightarrow> soc_row (classical_strength_of_connection_abs mynorm F_min n theta Ap Aj Ax) i =
     filter (\<lambda>e. fst e = i \<or> theta * abs_max_offdiagonal mynorm F_min Aj Ax i (Ap ! i) (Ap ! (i + 1)) \<le> mynorm (snd e))
       (csr_row Ap Aj Ax i)"
  unfolding soc_row_def abs_rows fst_conv snd_conv by (rule csr_row_concat)

lemma filter_diag_of_kept:
  "filter (\<lambda>e. fst e = i) (filter (\<lambda>e. fst e = i \<or> Q e) row) = filter (\<lambda>e. fst e = i) row"
  by (induction row) auto

text \<open>
  Claim C2, as the spec states it: an off-diagonal stored entry \<open>(i, j)\<close> enters \<open>S\<close> iff
  \<open>- A[i,j] \<ge> \<theta> * max\<^bsub>k \<noteq> i\<^esub> (- A[i,k])\<close>. The kernel starts its running maximum at
  \<open>0.0\<close>, so a row whose off-diagonal entries are all positive has threshold \<open>\<theta> * 0\<close>:
  in the matrix \<open>[[2, 1], [1, 2]]\<close> with \<open>\<theta> = 1\<close> the entry \<open>(0, 1)\<close> meets the stated
  criterion (\<open>- 1 \<ge> 1 * (- 1)\<close>) and is not in \<open>S\<close>.
\<close>

theorem soc_min_claimed_counterexample:
  "csr_wf 2 2 [0, 2, 4] [0, 1, 0, 1] [2, 1, 1, 2::rat] \<and>
   (1, 1) \<in> set (csr_row [0, 2, 4] [0, 1, 0, 1] [2, 1, 1, 2::rat] 0) \<and>
   strong_min_claimed 1 (csr_row [0, 2, 4] [0, 1, 0, 1] [2, 1, 1, 2::rat] 0) 0 1 \<and>
   (1, 1) \<notin> set (soc_row (classical_strength_of_connection_min 2 1 [0, 2, 4] [0, 1, 0, 1] [2, 1, 1, 2::rat]) 0)"
proof -
  have row: "csr_row [0, 2, 4] [0, 1, 0, 1] [2, 1, 1, 2::rat] 0 = [(0, 2), (1, 1)]"
    by (simp add: csr_row_def upt_rec)
  have neg: "offdiag_negated [(0, 2), (1, 1::rat)] 0 = {- 1}"
    by (auto simp: offdiag_negated_def)
  have S: "classical_strength_of_connection_min 2 1 [0, 2, 4] [0, 1, 0, 1] [2, 1, 1, 2::rat] =
           ([0, 1, 2], [0, 1], [2, 2])"
    by code_simp
  have Srow: "soc_row ([0, 1, 2], [0, 1], [2, 2::rat]) 0 = [(0, 2)]"
    by (simp add: soc_row_def csr_row_def)
  show ?thesis
    unfolding S Srow row strong_min_claimed_def neg
    by (simp add: csr_wf_def)
qed

text \<open>
  Claim C2, amended: for a well-formed CSR matrix \<open>A\<close>, every threshold \<open>\<theta>\<close> and every
  off-diagonal stored entry \<open>(i, j)\<close> with value \<open>a\<close>, the entry is in row \<open>i\<close> of the
  output \<open>S\<close> iff \<open>- a \<ge> \<theta> * max (0, max\<^bsub>k \<noteq> i\<^esub> (- A[i,k]))\<close>, the inner maximum over
  the off-diagonal entries stored in row \<open>i\<close>; no absolute value is taken.
\<close>

theorem soc_min_strong_iff_clamped:
  assumes "csr_wf n n_col Ap Aj Ax" and "i < n"
    and "(j, a) \<in> set (csr_row Ap Aj Ax i)" and "j \<noteq> i"
  shows "(j, a) \<in> set (soc_row (classical_strength_of_connection_min n theta Ap Aj Ax) i)
           \<longleftrightarrow> strong_min_clamped theta (csr_row Ap Aj Ax i) i a"
  unfolding min_soc_row[OF assms(2)] strong_min_clamped_def min_max_offdiagonal_Max
  using assms(3,4) by auto

theorem soc_min_strong_iff_clamped_witness:
  "(1, - 3) \<in> set (soc_row (classical_strength_of_connection_min 3 (1/2) [0, 2, 5, 7] [0, 1, 0, 1, 2, 1, 2]
        [4, - 3, - 1, 4, - 3, - 1, 4::rat]) 0) \<and>
   strong_min_clamped (1/2) (csr_row [0, 2, 5, 7] [0, 1, 0, 1, 2, 1, 2] [4, - 3, - 1, 4, - 3, - 1, 4::rat] 0) 0 (- 3)"
proof -
  have wf: "csr_wf 3 3 [0, 2, 5, 7] [0, 1, 0, 1, 2, 1, 2] [4, - 3, - 1, 4, - 3, - 1, 4::rat]"
    by (simp add: csr_wf_def)
  have row: "csr_row [0, 2, 5, 7] [0, 1, 0, 1, 2, 1, 2] [4, - 3, - 1, 4, - 3, - 1, 4::rat] 0 = [(0, 4), (1, - 3)]"
    by (simp add: csr_row_def upt_rec)
  have neg: "offdiag_negated [(0, 4), (1, - 3::rat)] 0 = {3}"
    by (force simp: offdiag_negated_def)
  have str: "strong_min_clamped (1/2) [(0, 4), (1, - 3::rat)] 0 (- 3)"
    unfolding strong_min_clamped_def neg by simp
  show ?thesis
    using soc_min_strong_iff_clamped[OF wf, of 0 1 "- 3" "1/2"] str
    unfolding row by simp
qed

text \<open>
  Claim C5: in \<^verbatim>\<open>classical_strength_of_connection_abs\<close> and in
  \<^verbatim>\<open>classical_strength_of_connection_min\<close>, for every row \<open>i\<close> and every \<open>\<theta>\<close>, the stored
  diagonal entries of row \<open>i\<close> of \<open>A\<close> are exactly the diagonal entries of row \<open>i\<close> of
  \<open>S\<close>, with their values and in their order, whether or not they pass the threshold.
\<close>

theorem soc_diagonal_retained:
  assumes "csr_wf n n_col Ap Aj Ax" and "i < n"
  shows "filter (\<lambda>e. fst e = i)
           (soc_row (classical_strength_of_connection_abs mynorm F_min n theta Ap Aj Ax) i) =
         filter (\<lambda>e. fst e = i) (csr_row Ap Aj Ax i) \<and>
         filter (\<lambda>e. fst e = i)
           (soc_row (classical_strength_of_connection_min n theta' Ap Aj Ax) i) =
         filter (\<lambda>e. fst e = i) (csr_row Ap Aj Ax i)"
  unfolding abs_soc_row[OF assms(2)] min_soc_row[OF assms(2)] filter_diag_of_kept
  by simp

theorem soc_diagonal_retained_witness:
  "filter (\<lambda>e. fst e = 1)
     (soc_row (classical_strength_of_connection_abs abs (1/1000) 3 (1/2) [0, 2, 5, 7] [0, 1, 0, 1, 2, 1, 2]
        [4, - 3, - 1, 4, - 3, - 1, 4::rat]) 1) = [(1, 4)] \<and>
   filter (\<lambda>e. fst e = 1)
     (soc_row (classical_strength_of_connection_min 3 (1/2) [0, 2, 5, 7] [0, 1, 0, 1, 2, 1, 2]
        [4, - 3, - 1, 4, - 3, - 1, 4::rat]) 1) = [(1, 4)]"
proof -
  have wf: "csr_wf 3 3 [0, 2, 5, 7] [0, 1, 0, 1, 2, 1, 2] [4, - 3, - 1, 4, - 3, - 1, 4::rat]"
    by (simp add: csr_wf_def)
  have row: "csr_row [0, 2, 5, 7] [0, 1, 0, 1, 2, 1, 2] [4, - 3, - 1, 4, - 3, - 1, 4::rat] 1 =
             [(0, - 1), (1, 4), (2, - 3)]"
    by (simp add: csr_row_def upt_rec)
  show ?thesis
    using soc_diagonal_retained[OF wf, of 1 abs "1/1000" "1/2" "1/2"]
    unfolding row by simp
qed

lemma fold_store_nth:
  "i \<in> set is \<Longrightarrow> i < length x \<Longrightarrow> fold (\<lambda>i x. x[i := g i]) is x ! i = g i"
proof (induction "is" arbitrary: x rule: rev_induct)
  case Nil
  then show ?case by simp
next
  case (snoc k ks)
  have len: "length (fold (\<lambda>i x. x[i := g i]) ks x) = length x"
    by (induction ks arbitrary: x) simp_all
  show ?case
  proof (cases "k = i")
    case True
    then show ?thesis using snoc.prems len by simp
  next
    case False
    then have "i \<in> set ks" using snoc.prems by simp
    then show ?thesis using False snoc.IH snoc.prems by simp
  qed
qed

text \<open>
  Claim C10: in \<^verbatim>\<open>maximum_row_value\<close>, a row \<open>i\<close> with no stored entries
  (\<open>Ap[i] = Ap[i+1]\<close>) gets \<open>x[i] = std::numeric_limits<F>::min()\<close>, the constant the
  running maximum starts from (the smallest positive normalised value of \<^verbatim>\<open>F\<close>, here the
  parameter \<open>F_min\<close>), and neither \<open>0\<close> nor an infinity.
\<close>

theorem maximum_row_value_empty_row:
  assumes "i < n_row" and "n_row \<le> length x" and "Ap ! i = Ap ! (i + 1)"
  shows "maximum_row_value mynorm F_min F_to_T n_row x Ap Aj Ax ! i = F_to_T F_min"
proof -
  have "maximum_row_value mynorm F_min F_to_T n_row x Ap Aj Ax ! i =
        F_to_T (fold (\<lambda>jj max_entry. max max_entry (mynorm (Ax ! jj))) [Ap ! i ..< Ap ! (i + 1)] F_min)"
    unfolding maximum_row_value_def Let_def
    using assms(1,2) by (intro fold_store_nth) simp_all
  then show ?thesis using assms(3) by simp
qed

theorem maximum_row_value_empty_row_witness:
  "maximum_row_value abs (1/1000) id 3 [0, 0, 0] [0, 2, 2, 3] [0, 1, 2] [- 3, 2, - 5::rat] ! 1 = 1/1000"
  using maximum_row_value_empty_row[of 1 3 "[0, 0, 0]" "[0, 2, 2, 3]" abs "1/1000" id "[0, 1, 2]" "[- 3, 2, - 5::rat]"]
  by simp

section \<open>Direct interpolation on the 1D Laplacian\<close>

text \<open>
  Claim C3: for the 5 by 5 matrix tridiag(-1, 2, -1), with \<open>S\<close> of the same pattern and
  values as \<open>A\<close> and the splitting C,F,C,F,C, the first pass returns the row pointer
  \<open>[0,1,3,4,6,7]\<close>; the second pass, whatever the arrays \<open>Bj\<close> and \<open>Bx\<close> held before,
  gives row 1 the two entries \<open>1/2\<close> at coarse columns 0 and 1, row 3 the two entries
  \<open>1/2\<close> at coarse columns 1 and 2, and each C-row 0, 2, 4 exactly one entry, of value 1.
\<close>

theorem direct_interpolation_laplacian5:
  "rs_direct_interpolation_pass1 5 [0, 2, 5, 8, 11, 13] [0, 1, 0, 1, 2, 1, 2, 3, 2, 3, 4, 3, 4]
       [1, 0, 1, 0, 1] = [0, 1, 3, 4, 6, 7] \<and>
   rs_direct_interpolation_pass2 5
       [0, 2, 5, 8, 11, 13] [0, 1, 0, 1, 2, 1, 2, 3, 2, 3, 4, 3, 4]
       [2, - 1, - 1, 2, - 1, - 1, 2, - 1, - 1, 2, - 1, - 1, 2::rat]
       [0, 2, 5, 8, 11, 13] [0, 1, 0, 1, 2, 1, 2, 3, 2, 3, 4, 3, 4]
       [2, - 1, - 1, 2, - 1, - 1, 2, - 1, - 1, 2, - 1, - 1, 2]
       [1, 0, 1, 0, 1] [0, 1, 3, 4, 6, 7]
       [b0, b1, b2, b3, b4, b5, b6] [x0, x1, x2, x3, x4, x5, x6] =
     ([0, 0, 1, 1, 1, 2, 2], [1, 1/2, 1/2, 1, 1/2, 1/2, 1]) \<and>
   csr_row [0, 1, 3, 4, 6, 7] [0, 0, 1, 1, 1, 2, 2] [1, 1/2, 1/2, 1, 1/2, 1/2, 1::rat] 0 = [(0, 1)] \<and>
   csr_row [0, 1, 3, 4, 6, 7] [0, 0, 1, 1, 1, 2, 2] [1, 1/2, 1/2, 1, 1/2, 1/2, 1::rat] 1 = [(0, 1/2), (1, 1/2)] \<and>
   csr_row [0, 1, 3, 4, 6, 7] [0, 0, 1, 1, 1, 2, 2] [1, 1/2, 1/2, 1, 1/2, 1/2, 1::rat] 2 = [(1, 1)] \<and>
   csr_row [0, 1, 3, 4, 6, 7] [0, 0, 1, 1, 1, 2, 2] [1, 1/2, 1/2, 1, 1/2, 1/2, 1::rat] 3 = [(1, 1/2), (2, 1/2)] \<and>
   csr_row [0, 1, 3, 4, 6, 7] [0, 0, 1, 1, 1, 2, 2] [1, 1/2, 1/2, 1, 1/2, 1/2, 1::rat] 4 = [(2, 1)]"
proof -
  have p1: "rs_direct_interpolation_pass1 5 [0, 2, 5, 8, 11, 13] [0, 1, 0, 1, 2, 1, 2, 3, 2, 3, 4, 3, 4]
       [1, 0, 1, 0, 1] = [0, 1, 3, 4, 6, 7]"
    by code_simp
  have p2: "rs_direct_interpolation_pass2 5
       [0, 2, 5, 8, 11, 13] [0, 1, 0, 1, 2, 1, 2, 3, 2, 3, 4, 3, 4]
       [2, - 1, - 1, 2, - 1, - 1, 2, - 1, - 1, 2, - 1, - 1, 2::rat]
       [0, 2, 5, 8, 11, 13] [0, 1, 0, 1, 2, 1, 2, 3, 2, 3, 4, 3, 4]
       [2, - 1, - 1, 2, - 1, - 1, 2, - 1, - 1, 2, - 1, - 1, 2]
       [1, 0, 1, 0, 1] [0, 1, 3, 4, 6, 7]
       [b0, b1, b2, b3, b4, b5, b6] [x0, x1, x2, x3, x4, x5, x6] =
     ([0, 0, 1, 1, 1, 2, 2], [1, 1/2, 1/2, 1, 1/2, 1/2, 1])"
    by code_simp
  have rows: "csr_row [0, 1, 3, 4, 6, 7] [0, 0, 1, 1, 1, 2, 2] [1, 1/2, 1/2, 1, 1/2, 1/2, 1::rat] 0 = [(0, 1)]"
    "csr_row [0, 1, 3, 4, 6, 7] [0, 0, 1, 1, 1, 2, 2] [1, 1/2, 1/2, 1, 1/2, 1/2, 1::rat] 1 = [(0, 1/2), (1, 1/2)]"
    "csr_row [0, 1, 3, 4, 6, 7] [0, 0, 1, 1, 1, 2, 2] [1, 1/2, 1/2, 1, 1/2, 1/2, 1::rat] 2 = [(1, 1)]"
    "csr_row [0, 1, 3, 4, 6, 7] [0, 0, 1, 1, 1, 2, 2] [1, 1/2, 1/2, 1, 1/2, 1/2, 1::rat] 3 = [(1, 1/2), (2, 1/2)]"
    "csr_row [0, 1, 3, 4, 6, 7] [0, 0, 1, 1, 1, 2, 2] [1, 1/2, 1/2, 1, 1/2, 1/2, 1::rat] 4 = [(2, 1)]"
    by (simp_all add: csr_row_def upt_rec)
  show ?thesis
    using p1 p2 rows by (intro conjI)
qed

section \<open>Removal of strong F-F connections\<close>

lemma row_scan_flag:
  "fold (\<lambda>kk dependence. if cols ! kk = r then True else dependence) ks d =
     (d \<or> (\<exists>kk \<in> set ks. cols ! kk = r))"
  by (induction ks arbitrary: d) auto

lemma dependence_scan_iff:
  "dependence_scan C_rowptr C_colinds splitting j iis d =
     (d \<or> (\<exists>ii \<in> set iis. splitting ! (C_colinds ! ii) = C_NODE \<and>
              (\<exists>kk \<in> set [C_rowptr ! j ..< C_rowptr ! (j + 1)]. C_colinds ! kk = C_colinds ! ii)))"
proof (induction iis arbitrary: d)
  case Nil
  show ?case by simp
next
  case (Cons ii iis)
  show ?case
    by (simp add: Let_def row_scan_flag Cons.IH del: upt_Suc)
qed

lemma dependence_scan_common_C:
  "dependence_scan C_rowptr C_colinds splitting j [C_rowptr ! row ..< C_rowptr ! (row + 1)] False =
     (\<exists>m. splitting ! m = C_NODE \<and> m \<in> csr_cols C_rowptr C_colinds row \<and>
          m \<in> csr_cols C_rowptr C_colinds j)"
  (is "?scan = ?common")
proof
  assume ?scan
  then obtain ii kk where "ii \<in> set [C_rowptr ! row ..< C_rowptr ! (row + 1)]"
    and "splitting ! (C_colinds ! ii) = C_NODE"
    and "kk \<in> set [C_rowptr ! j ..< C_rowptr ! (j + 1)]"
    and "C_colinds ! kk = C_colinds ! ii"
    unfolding dependence_scan_iff by blast
  then have "splitting ! (C_colinds ! ii) = C_NODE \<and>
      C_colinds ! ii \<in> csr_cols C_rowptr C_colinds row \<and>
      C_colinds ! ii \<in> csr_cols C_rowptr C_colinds j"
    unfolding csr_cols_def by (simp del: upt_Suc) metis
  then show ?common by blast
next
  assume ?common
  then obtain m ii kk where "splitting ! m = C_NODE"
    and "m = C_colinds ! ii" and "C_rowptr ! row \<le> ii" and "ii < C_rowptr ! (row + 1)"
    and "m = C_colinds ! kk" and "C_rowptr ! j \<le> kk" and "kk < C_rowptr ! (j + 1)"
    unfolding csr_cols_def by blast
  then have "ii \<in> set [C_rowptr ! row ..< C_rowptr ! (row + 1)] \<and>
      splitting ! (C_colinds ! ii) = C_NODE \<and>
      kk \<in> set [C_rowptr ! j ..< C_rowptr ! (j + 1)] \<and> C_colinds ! kk = C_colinds ! ii"
    by simp
  then show ?scan
    unfolding dependence_scan_iff by blast
qed

lemma fold_zero_length:
  "length (fold (\<lambda>jj d. if Q jj then d[jj := 0] else d) js d) = length d"
  by (induction js arbitrary: d) simp_all

lemma fold_zero_nth:
  "e < length d \<Longrightarrow>
   fold (\<lambda>jj d. if Q jj then d[jj := 0] else d) js d ! e = (if e \<in> set js \<and> Q e then 0 else d ! e)"
proof (induction js arbitrary: d)
  case Nil
  show ?case by simp
next
  case (Cons j js)
  show ?case
    using Cons.prems by (cases "j = e") (auto simp: Cons.IH)
qed

lemma fold_rows_zero_length:
  "length (fold (\<lambda>row d. if P row then fold (\<lambda>jj d. if Q row jj then d[jj := 0] else d) (rng row) d else d)
             rows d) = length d"
  by (induction rows arbitrary: d) (simp_all add: fold_zero_length)

lemma fold_rows_zero_nth:
  "e < length d \<Longrightarrow>
   fold (\<lambda>row d. if P row then fold (\<lambda>jj d. if Q row jj then d[jj := 0] else d) (rng row) d else d)
        rows d ! e =
     (if \<exists>row \<in> set rows. P row \<and> e \<in> set (rng row) \<and> Q row e then 0 else d ! e)"
proof (induction rows arbitrary: d)
  case Nil
  show ?case by simp
next
  case (Cons r rows)
  show ?case
    using Cons.prems by (auto simp: Cons.IH fold_zero_length fold_zero_nth)
qed

lemma remove_strong_FF_connections_fold:
  "remove_strong_FF_connections n C_rowptr C_colinds C_data splitting =
     fold (\<lambda>row d. if splitting ! row = F_NODE
             then fold (\<lambda>jj d. if splitting ! (C_colinds ! jj) = F_NODE \<and>
                                  \<not> (\<exists>m. splitting ! m = C_NODE \<and> m \<in> csr_cols C_rowptr C_colinds row \<and>
                                            m \<in> csr_cols C_rowptr C_colinds (C_colinds ! jj))
                                then d[jj := 0] else d)
                    [C_rowptr ! row ..< C_rowptr ! (row + 1)] d
             else d)
          [0 ..< n] C_data"
proof -
  have inner: "(\<lambda>jj C_data.
                     let j = C_colinds ! jj
                     in if splitting ! j = F_NODE
                        then (if dependence_scan C_rowptr C_colinds splitting j
                                   [C_rowptr ! row ..< C_rowptr ! (row + 1)] False
                              then C_data else C_data[jj := 0])
                        else C_data) =
        (\<lambda>jj d. if splitting ! (C_colinds ! jj) = F_NODE \<and>
                                  \<not> (\<exists>m. splitting ! m = C_NODE \<and> m \<in> csr_cols C_rowptr C_colinds row \<and>
                                            m \<in> csr_cols C_rowptr C_colinds (C_colinds ! jj))
                                then d[jj := 0] else d)" for row
    unfolding Let_def dependence_scan_common_C by (intro ext) auto
  show ?thesis
    unfolding remove_strong_FF_connections_def inner ..
qed

text \<open>
  Claim C6: \<^verbatim>\<open>remove_strong_FF_connections\<close> sets \<open>C_data[e]\<close> to 0 for exactly the stored
  entries \<open>e\<close> at a position \<open>(row, j)\<close> with \<open>row\<close> and \<open>j\<close> both F-nodes and no C-node
  among the stored columns of both row \<open>row\<close> and row \<open>j\<close>; every other entry of
  \<open>C_data\<close> keeps its value. (\<open>C_rowptr\<close> and \<open>C_colinds\<close> are \<^verbatim>\<open>const\<close> arrays, which the
  kernel only reads.)
\<close>

theorem remove_strong_FF_connections_exact:
  assumes "csr_wf n n C_rowptr C_colinds C_data" and "length splitting = n"
  shows "remove_strong_FF_connections n C_rowptr C_colinds C_data splitting =
         map (\<lambda>e. if ff_without_common_C n C_rowptr C_colinds splitting e then 0 else C_data ! e)
             [0 ..< length C_data]"
proof (rule nth_equalityI)
  show "length (remove_strong_FF_connections n C_rowptr C_colinds C_data splitting) =
        length (map (\<lambda>e. if ff_without_common_C n C_rowptr C_colinds splitting e then 0 else C_data ! e)
             [0 ..< length C_data])"
    unfolding remove_strong_FF_connections_fold by (simp add: fold_rows_zero_length)
next
  fix e
  assume "e < length (remove_strong_FF_connections n C_rowptr C_colinds C_data splitting)"
  then have e: "e < length C_data"
    unfolding remove_strong_FF_connections_fold by (simp add: fold_rows_zero_length)
  show "remove_strong_FF_connections n C_rowptr C_colinds C_data splitting ! e =
        map (\<lambda>e. if ff_without_common_C n C_rowptr C_colinds splitting e then 0 else C_data ! e)
             [0 ..< length C_data] ! e"
    unfolding remove_strong_FF_connections_fold using e
    by (simp add: fold_rows_zero_nth ff_without_common_C_def del: upt_Suc) auto
qed

theorem remove_strong_FF_connections_exact_witness:
  "remove_strong_FF_connections 4 [0, 2, 5, 8, 10] [0, 1, 0, 1, 2, 1, 2, 3, 2, 3]
     [2, - 1, - 1, 2, - 1, - 1, 2, - 1, - 1, 2::rat] [0, 0, 1, 0] =
   [0, 0, 0, 2, - 1, - 1, 2, - 1, - 1, 2] \<and>
   map (\<lambda>e. if ff_without_common_C 4 [0, 2, 5, 8, 10] [0, 1, 0, 1, 2, 1, 2, 3, 2, 3] [0, 0, 1, 0] e
             then 0 else [2, - 1, - 1, 2, - 1, - 1, 2, - 1, - 1, 2::rat] ! e)
       [0 ..< length [2, - 1, - 1, 2, - 1, - 1, 2, - 1, - 1, 2::rat]] =
   [0, 0, 0, 2, - 1, - 1, 2, - 1, - 1, 2]"
proof -
  have wf: "csr_wf 4 4 [0, 2, 5, 8, 10] [0, 1, 0, 1, 2, 1, 2, 3, 2, 3]
     [2, - 1, - 1, 2, - 1, - 1, 2, - 1, - 1, 2::rat]"
    by (simp add: csr_wf_def)
  have len: "length [0, 0, 1, 0::nat] = 4"
    by simp
  have run: "remove_strong_FF_connections 4 [0, 2, 5, 8, 10] [0, 1, 0, 1, 2, 1, 2, 3, 2, 3]
     [2, - 1, - 1, 2, - 1, - 1, 2, - 1, - 1, 2::rat] [0, 0, 1, 0] =
     [0, 0, 0, 2, - 1, - 1, 2, - 1, - 1, 2]"
    by code_simp
  note eq = remove_strong_FF_connections_exact[OF wf len]
  show ?thesis
    by (intro conjI, rule run, rule trans[OF eq[symmetric] run])
qed

section \<open>The CLJP selection loop\<close>

lemma fold_invariant:
  assumes "P s" and "\<And>x s. x \<in> set xs \<Longrightarrow> P s \<Longrightarrow> P (f x s)"
  shows "P (fold f xs s)"
  using assms by (induction xs arbitrary: s) simp_all

lemma csr_row_entry_bound:
  assumes "csr_pattern_wf n Ap Aj" and "i < n" and "jj \<in> set [Ap ! i ..< Ap ! (i + 1)]"
  shows "Aj ! jj < n"
proof -
  have "sorted Ap" and len: "length Ap = n + 1" and nnz: "length Aj = Ap ! n"
    and all: "list_all (\<lambda>j. j < n) Aj"
    using assms(1) by (simp_all add: csr_pattern_wf_def)
  have "Ap ! (i + 1) \<le> Ap ! n"
    using \<open>sorted Ap\<close> len assms(2) by (intro sorted_nth_mono) simp_all
  then have "jj < length Aj"
    using assms(3) nnz by simp
  then show ?thesis
    using all by (simp add: list_all_length)
qed

lemma heavier_neighbour_iff:
  "heavier_neighbour Xj splitting weight i jjs =
     (\<exists>jj \<in> set jjs. splitting ! (Xj ! jj) = U_NODE \<and> weight ! (Xj ! jj) > weight ! i)"
  by (induction jjs) (auto simp: Let_def)

lemma fold_collect:
  "fold (\<lambda>i (Dlist, u). if sel i then (Dlist @ [i], u - 1) else (Dlist, u)) xs (D0, u0) =
     (D0 @ filter sel xs, u0 - int (length (filter sel xs)))"
  by (induction xs arbitrary: D0 u0) simp_all

lemma cljp_select_filter:
  "cljp_select n Sp Sj Tp Tj s =
     (filter (cljp_selected Sp Sj Tp Tj s) [0 ..< n],
      cs_unassigned s - int (length (filter (cljp_selected Sp Sj Tp Tj s) [0 ..< n])))"
proof -
  have body: "(\<lambda>i (Dlist, unassigned).
             if cs_splitting s ! i = U_NODE
             then (let D_row = \<not> heavier_neighbour Sj (cs_splitting s) (cs_weight s) i
                                   [Sp ! i ..< Sp ! (i + 1)];
                       D_col = (if D_row
                                then \<not> heavier_neighbour Tj (cs_splitting s) (cs_weight s) i
                                         [Tp ! i ..< Tp ! (i + 1)]
                                else D_row)
                   in if D_col then (Dlist @ [i], unassigned - 1) else (Dlist, unassigned))
             else (Dlist, unassigned)) =
        (\<lambda>i (Dlist, u). if cljp_selected Sp Sj Tp Tj s i then (Dlist @ [i], u - 1) else (Dlist, u))"
    unfolding Let_def heavier_neighbour_iff cljp_selected_def
    by (intro ext) (auto simp del: upt_Suc)
  show ?thesis
    unfolding cljp_select_def body using fold_collect[of _ _ "[]"] by simp
qed


lemma tags_distinct: "F_NODE \<noteq> U_NODE" "C_NODE \<noteq> U_NODE" "F_NODE \<noteq> C_NODE"
  by (simp_all add: F_NODE_def C_NODE_def U_NODE_def)

lemma finite_U_set: "finite (U_set splitting)"
  unfolding U_set_def by simp

lemma fold_mark_length: "length (fold (\<lambda>c splitting. splitting[c := v]) D splitting) = length splitting"
  by (induction D arbitrary: splitting) simp_all

lemma fold_mark_nth:
  "i < length splitting \<Longrightarrow>
   fold (\<lambda>c splitting. splitting[c := v]) D splitting ! i = (if i \<in> set D then v else splitting ! i)"
proof (induction D arbitrary: splitting)
  case Nil
  show ?case by simp
next
  case (Cons c D)
  show ?case
    using Cons.prems by (cases "c = i") (simp_all add: Cons.IH)
qed

lemma U_set_mark_C:
  "U_set (fold (\<lambda>c splitting. splitting[c := C_NODE]) D splitting) = U_set splitting - set D"
  unfolding U_set_def using tags_distinct(2)
  by (auto simp: fold_mark_length fold_mark_nth split: if_splits)

lemma U_set_update_F:
  "U_set (splitting[j := F_NODE]) = U_set splitting - {j}"
proof -
  have "splitting[j := F_NODE] ! i = U_NODE \<longleftrightarrow> i \<noteq> j \<and> splitting ! i = U_NODE"
    if "i < length splitting" for i
    using that tags_distinct(1) by (cases "i = j") simp_all
  then show ?thesis
    unfolding U_set_def by auto
qed

lemma list_all_update:
  "list_all P xs \<Longrightarrow> P v \<Longrightarrow> list_all P (xs[c := v])"
  by (auto simp: list_all_iff dest: subsetD[OF set_update_subset_insert])

lemma list_all_fold_mark:
  "list_all P xs \<Longrightarrow> P v \<Longrightarrow> list_all P (fold (\<lambda>c splitting. splitting[c := v]) D xs)"
  by (induction D arbitrary: xs) (simp_all add: list_all_update)

lemma cljp_mark_inv:
  assumes inv: "cljp_inv n s"
    and D: "D = filter (cljp_selected Sp Sj Tp Tj s) [0 ..< n]"
  shows "cljp_inv n (s\<lparr>cs_splitting := fold (\<lambda>c splitting. splitting[c := C_NODE]) D (cs_splitting s),
                         cs_unassigned := cs_unassigned s - int (length D)\<rparr>)"
proof -
  have len: "length (cs_splitting s) = n"
    and un: "cs_unassigned s = int (card (U_set (cs_splitting s)))"
    and tags: "list_all (\<lambda>x. x = F_NODE \<or> x = C_NODE \<or> x = U_NODE) (cs_splitting s)"
    using inv by (simp_all add: cljp_inv_def)
  have dist: "distinct D"
    unfolding D by simp
  have sub: "set D \<subseteq> U_set (cs_splitting s)"
    unfolding D U_set_def using len by (auto simp: cljp_selected_def)
  have "card (U_set (cs_splitting s) - set D) = card (U_set (cs_splitting s)) - card (set D)"
    using sub by (intro card_Diff_subset) simp_all
  moreover have "card (set D) \<le> card (U_set (cs_splitting s))"
    using sub finite_U_set by (intro card_mono)
  ultimately have "int (card (U_set (cs_splitting s) - set D)) = cs_unassigned s - int (length D)"
    using un distinct_card[OF dist] by simp
  then show ?thesis
    unfolding cljp_inv_def using len tags
    by (simp add: fold_mark_length U_set_mark_C list_all_fold_mark)
qed

lemma cljp_selected_maximal:
  assumes S: "csr_pattern_wf n Sp Sj" and T: "csr_pattern_wf n Tp Tj"
    and i: "i < n" "cs_splitting s ! i = U_NODE"
    and mx: "\<And>j. j < n \<Longrightarrow> cs_splitting s ! j = U_NODE \<Longrightarrow> cs_weight s ! j \<le> cs_weight s ! i"
  shows "cljp_selected Sp Sj Tp Tj s i"
proof -
  have "\<not> cs_weight s ! (Sj ! jj) > cs_weight s ! i"
    if "jj \<in> set [Sp ! i ..< Sp ! (i + 1)]" "cs_splitting s ! (Sj ! jj) = U_NODE" for jj
    using mx[OF csr_row_entry_bound[OF S i(1) that(1)] that(2)] by simp
  moreover have "\<not> cs_weight s ! (Tj ! jj) > cs_weight s ! i"
    if "jj \<in> set [Tp ! i ..< Tp ! (i + 1)]" "cs_splitting s ! (Tj ! jj) = U_NODE" for jj
    using mx[OF csr_row_entry_bound[OF T i(1) that(1)] that(2)] by simp
  ultimately show ?thesis
    unfolding cljp_selected_def using i(2) by blast
qed

lemma cljp_maximal_exists:
  fixes s :: "('w::linorder) cljp_state"
  assumes "length (cs_splitting s) = n" and "U_set (cs_splitting s) \<noteq> {}"
  shows "\<exists>i < n. cs_splitting s ! i = U_NODE \<and>
           (\<forall>j < n. cs_splitting s ! j = U_NODE \<longrightarrow> cs_weight s ! j \<le> cs_weight s ! i)"
proof -
  let ?U = "U_set (cs_splitting s)"
  let ?W = "(\<lambda>i. cs_weight s ! i) ` ?U"
  have fin: "finite ?W" and ne: "?W \<noteq> {}"
    using finite_U_set assms(2) by simp_all
  from Max_in[OF fin ne] obtain i where i: "i \<in> ?U" and m: "cs_weight s ! i = Max ?W"
    by auto
  have "cs_weight s ! j \<le> cs_weight s ! i" if "j \<in> ?U" for j
    unfolding m using fin that by (intro Max_ge) simp_all
  then show ?thesis
    using i assms(1) unfolding U_set_def by auto
qed

lemma cljp_remove_edge_inv:
  assumes inv: "cljp_inv n s" and j: "j < n" "cs_splitting s ! j = U_NODE"
  shows "cljp_inv n (cljp_remove_edge jj j s) \<and>
         cs_unassigned (cljp_remove_edge jj j s) \<le> cs_unassigned s"
proof -
  have len: "length (cs_splitting s) = n"
    and un: "cs_unassigned s = int (card (U_set (cs_splitting s)))"
    and tags: "list_all (\<lambda>x. x = F_NODE \<or> x = C_NODE \<or> x = U_NODE) (cs_splitting s)"
    using inv by (simp_all add: cljp_inv_def)
  have mem: "j \<in> U_set (cs_splitting s)"
    using j len by (simp add: U_set_def)
  then have "card (U_set (cs_splitting s) - {j}) = card (U_set (cs_splitting s)) - 1"
    and "1 \<le> card (U_set (cs_splitting s))"
    using finite_U_set[of "cs_splitting s"] by (simp_all add: card_gt_0_iff Suc_le_eq) blast
  then have "int (card (U_set ((cs_splitting s)[j := F_NODE]))) = cs_unassigned s - 1"
    using un by (simp add: U_set_update_F)
  then show ?thesis
    unfolding cljp_remove_edge_def cljp_inv_def Let_def using len un tags
    by (simp add: list_all_update)
qed

lemma cljp_P5_inv:
  assumes S: "csr_pattern_wf n Sp Sj" and c: "c < n"
    and inv: "cljp_inv n s \<and> cs_unassigned s \<le> u"
  shows "cljp_inv n (cljp_P5 Sp Sj c s) \<and> cs_unassigned (cljp_P5 Sp Sj c s) \<le> u"
proof -
  let ?P = "\<lambda>s :: 'a cljp_state. cljp_inv n s \<and> cs_unassigned s \<le> u"
  have step: "?P (cljp_P5_entry Sj jj t)"
    if "jj \<in> set [Sp ! c ..< Sp ! (c + 1)]" and "?P t" for jj and t :: "'a cljp_state"
    using that(2) cljp_remove_edge_inv[of n t "Sj ! jj" jj] csr_row_entry_bound[OF S c that(1)]
    by (auto simp: cljp_P5_entry_def Let_def)
  show ?thesis
    unfolding cljp_P5_def using inv step by (rule fold_invariant[where P = ?P])
qed

lemma cljp_P6_inv:
  assumes S: "csr_pattern_wf n Sp Sj" and T: "csr_pattern_wf n Tp Tj" and c: "c < n"
    and inv: "cljp_inv n s \<and> cs_unassigned s \<le> u"
  shows "cljp_inv n (cljp_P6 Sp Sj Tp Tj c s) \<and> cs_unassigned (cljp_P6 Sp Sj Tp Tj c s) \<le> u"
proof -
  let ?P = "\<lambda>s :: 'a cljp_state. cljp_inv n s \<and> cs_unassigned s \<le> u"
  have mark: "?P (cljp_P6_mark Tj c jj t)" if "?P t" for jj and t :: "'a cljp_state"
    using that by (simp add: cljp_P6_mark_def Let_def cljp_inv_def)
  have entry: "?P (cljp_P6_entry Sj c kk t)"
    if "j < n" and "kk \<in> set [Sp ! j ..< Sp ! (j + 1)]" and "?P t" for j kk and t :: "'a cljp_state"
    using that(3) cljp_remove_edge_inv[of n t "Sj ! kk" kk] csr_row_entry_bound[OF S that(1,2)]
    by (auto simp: cljp_P6_entry_def Let_def)
  have row: "?P (cljp_P6_row Sp Sj Tj c jj t)"
    if "jj \<in> set [Tp ! c ..< Tp ! (c + 1)]" and "?P t" for jj and t :: "'a cljp_state"
    unfolding cljp_P6_row_def Let_def
    using that(2) entry[OF csr_row_entry_bound[OF T c that(1)]]
    by (rule fold_invariant[where P = ?P])
  have "?P (fold (cljp_P6_mark Tj c) [Tp ! c ..< Tp ! (c + 1)] s)"
    using inv mark by (rule fold_invariant[where P = ?P])
  then show ?thesis
    unfolding cljp_P6_def Let_def using row by (rule fold_invariant[where P = ?P])
qed

lemma cljp_round_inv:
  assumes S: "csr_pattern_wf n Sp Sj" and T: "csr_pattern_wf n Tp Tj"
    and inv: "cljp_inv n s" and pos: "0 < cs_unassigned s"
  shows "cljp_inv n (cljp_round n Sp Sj Tp Tj s) \<and>
         cs_unassigned (cljp_round n Sp Sj Tp Tj s) < cs_unassigned s"
proof -
  let ?D = "filter (cljp_selected Sp Sj Tp Tj s) [0 ..< n]"
  let ?s1 = "s\<lparr>cs_splitting := fold (\<lambda>c splitting. splitting[c := C_NODE]) ?D (cs_splitting s),
               cs_unassigned := cs_unassigned s - int (length ?D)\<rparr>"
  let ?u = "cs_unassigned s - int (length ?D)"
  let ?P = "\<lambda>s :: 'a cljp_state. cljp_inv n s \<and> cs_unassigned s \<le> ?u"
  have len: "length (cs_splitting s) = n"
    and un: "cs_unassigned s = int (card (U_set (cs_splitting s)))"
    using inv by (simp_all add: cljp_inv_def)
  have "U_set (cs_splitting s) \<noteq> {}"
    using pos un by auto
  from cljp_maximal_exists[OF len this] obtain i where i: "i < n" "cs_splitting s ! i = U_NODE"
    and mx: "\<And>j. j < n \<Longrightarrow> cs_splitting s ! j = U_NODE \<Longrightarrow> cs_weight s ! j \<le> cs_weight s ! i"
    by blast
  have "i \<in> set ?D"
    using cljp_selected_maximal[OF S T i mx] i(1) by simp
  then have "0 < length ?D"
    by (cases ?D) simp_all
  then have less: "?u < cs_unassigned s"
    by simp
  have D_bound: "c < n" if "c \<in> set ?D" for c
    using that by simp
  have s1: "?P ?s1"
    using cljp_mark_inv[OF inv refl, of Sp Sj Tp Tj] by simp
  have s2: "?P (fold (cljp_P5 Sp Sj) ?D ?s1)"
    using s1 cljp_P5_inv[OF S D_bound] by (rule fold_invariant[where P = ?P])
  have s3: "?P (fold (cljp_P6 Sp Sj Tp Tj) ?D (fold (cljp_P5 Sp Sj) ?D ?s1))"
    using s2 cljp_P6_inv[OF S T D_bound] by (rule fold_invariant[where P = ?P])
  have eq: "cljp_round n Sp Sj Tp Tj s = fold (cljp_P6 Sp Sj Tp Tj) ?D (fold (cljp_P5 Sp Sj) ?D ?s1)"
    unfolding cljp_round_def cljp_select_filter by (simp add: Let_def)
  from s3 have a: "cljp_inv n (cljp_round n Sp Sj Tp Tj s)"
    and b: "cs_unassigned (cljp_round n Sp Sj Tp Tj s) \<le> ?u"
    unfolding eq by blast+
  from b less have "cs_unassigned (cljp_round n Sp Sj Tp Tj s) < cs_unassigned s"
    by (rule le_less_trans)
  with a show ?thesis
    by (rule conjI)
qed

lemma cljp_selection_loop_terminates:
  assumes S: "csr_pattern_wf n Sp Sj" and T: "csr_pattern_wf n Tp Tj"
    and inv: "cljp_inv n s"
  shows "\<exists>s'. cljp_selection_loop n Sp Sj Tp Tj s = Some s' \<and> cljp_inv n s' \<and> cs_unassigned s' \<le> 0"
  using inv
proof (induction "nat (cs_unassigned s)" arbitrary: s rule: less_induct)
  case less
  show ?case
  proof (cases "0 < cs_unassigned s")
    case True
    let ?s = "cljp_round n Sp Sj Tp Tj s"
    have r: "cljp_inv n ?s" "cs_unassigned ?s < cs_unassigned s"
      using cljp_round_inv[OF S T less.prems True] by simp_all
    then have "nat (cs_unassigned ?s) < nat (cs_unassigned s)"
      using True by simp
    from less.hyps[OF this r(1)] show ?thesis
      using True by (subst cljp_selection_loop.simps) simp
  next
    case False
    then show ?thesis
      using less.prems by (subst cljp_selection_loop.simps) simp
  qed
qed

lemma U_set_replicate: "U_set (replicate n U_NODE) = {..<n}"
  unfolding U_set_def by auto

lemma cljp_initial_state_inv:
  "cljp_initial_state vertex_coloring_mis srand rand RAND_MAX g n Sp Sj colorflag = Some sg \<Longrightarrow>
   cljp_inv n (fst sg)"
  unfolding cljp_initial_state_def cljp_inv_def
  by (auto simp: U_set_replicate list_all_length split: option.splits)

lemma cljp_initial_state_Some:
  assumes "0 < n \<or> colorflag \<noteq> 1"
  shows "\<exists>sg. (cljp_initial_state vertex_coloring_mis srand rand RAND_MAX g n Sp Sj colorflag
           :: (('w::linordered_field) cljp_state \<times> 'g) option) = Some sg"
  using assms
  unfolding cljp_initial_state_def cljp_initial_weights_def cljp_color_weights_def Let_def
  by (auto split: option.splits)

lemma cljp_initial_state_reseeded:
  "map_option fst (cljp_initial_state vertex_coloring_mis srand rand RAND_MAX g1 n Sp Sj colorflag) =
   map_option fst (cljp_initial_state vertex_coloring_mis srand rand RAND_MAX g2 n Sp Sj colorflag)"
  unfolding cljp_initial_state_def cljp_initial_weights_def
  by (simp split: option.splits)

lemma fold_U_to_F_length:
  "length (fold (\<lambda>i splitting. if splitting ! i = U_NODE then splitting[i := F_NODE] else splitting)
             xs splitting) = length splitting"
  by (induction xs arbitrary: splitting) simp_all

lemma fold_U_to_F_nth:
  "k < length splitting \<Longrightarrow>
   fold (\<lambda>i splitting. if splitting ! i = U_NODE then splitting[i := F_NODE] else splitting)
        xs splitting ! k =
     (if k \<in> set xs \<and> splitting ! k = U_NODE then F_NODE else splitting ! k)"
proof (induction xs arbitrary: splitting)
  case Nil
  show ?case by simp
next
  case (Cons x xs)
  show ?case
    using Cons.prems tags_distinct(1)
    by (cases "x = k") (simp_all add: Cons.IH)
qed

lemma cljp_naive_splitting_tags:
  assumes S: "csr_pattern_wf n Sp Sj" and T: "csr_pattern_wf n Tp Tj"
    and run: "cljp_naive_splitting vertex_coloring_mis srand rand RAND_MAX g n Sp Sj Tp Tj colorflag =
              Some (splitting, g')"
  shows "length splitting = n \<and> list_all (\<lambda>x. x = F_NODE \<or> x = C_NODE) splitting"
proof -
  from run obtain sg :: "rat cljp_state \<times> 'a" and s' where
    init: "cljp_initial_state vertex_coloring_mis srand rand RAND_MAX g n Sp Sj colorflag = Some sg"
    and loop: "cljp_selection_loop n Sp Sj Tp Tj (fst sg) = Some s'"
    and sp: "splitting =
      fold (\<lambda>i splitting. if splitting ! i = U_NODE then splitting[i := F_NODE] else splitting)
        [0 ..< n] (cs_splitting s')"
    unfolding cljp_naive_splitting_def by (auto split: option.splits)
  have "cljp_inv n (fst sg)"
    using init by (rule cljp_initial_state_inv)
  from cljp_selection_loop_terminates[OF S T this] loop have inv: "cljp_inv n s'"
    by auto
  have len: "length (cs_splitting s') = n"
    and tags: "list_all (\<lambda>x. x = F_NODE \<or> x = C_NODE \<or> x = U_NODE) (cs_splitting s')"
    using inv by (simp_all add: cljp_inv_def)
  have "splitting ! k = F_NODE \<or> splitting ! k = C_NODE" if "k < n" for k
    using that len tags unfolding sp by (auto simp: fold_U_to_F_nth list_all_length)
  then show ?thesis
    unfolding sp by (simp add: fold_U_to_F_length len list_all_length)
qed

text \<open>
  Termination of the selection loop. On a well-formed input with at least one node, or
  one for which the kernel draws random weights, \<^verbatim>\<open>cljp_naive_splitting\<close> returns. In
  every round entered with \<open>unassigned > 0\<close> (and the counter equal to the number of
  U-nodes, which the loop keeps true), a U-node of maximal weight among the U-nodes is in
  the independent set, the counter strictly decreases, and so the loop exits.
\<close>

lemma cljp_naive_splitting_terminates:
  assumes "csr_pattern_wf n Sp Sj" and "csr_pattern_wf n Tp Tj" and "0 < n \<or> colorflag \<noteq> 1"
  shows "(\<exists>r. cljp_naive_splitting vertex_coloring_mis srand rand RAND_MAX g n Sp Sj Tp Tj colorflag = Some r) \<and>
         (\<forall>s :: rat cljp_state. cljp_inv n s \<and> 0 < cs_unassigned s \<longrightarrow>
            (\<exists>i \<in> set (fst (cljp_select n Sp Sj Tp Tj s)). cs_splitting s ! i = U_NODE \<and>
               (\<forall>j < n. cs_splitting s ! j = U_NODE \<longrightarrow> cs_weight s ! j \<le> cs_weight s ! i)) \<and>
            cljp_inv n (cljp_round n Sp Sj Tp Tj s) \<and>
            cs_unassigned (cljp_round n Sp Sj Tp Tj s) < cs_unassigned s)"
proof (intro conjI allI impI)
  have "\<exists>sg :: rat cljp_state \<times> 'a.
      cljp_initial_state vertex_coloring_mis srand rand RAND_MAX g n Sp Sj colorflag = Some sg"
    using assms(3) by (rule cljp_initial_state_Some)
  then obtain sg :: "rat cljp_state \<times> 'a" where
    init: "cljp_initial_state vertex_coloring_mis srand rand RAND_MAX g n Sp Sj colorflag = Some sg"
    by blast
  have "cljp_inv n (fst sg)"
    using init by (rule cljp_initial_state_inv)
  from cljp_selection_loop_terminates[OF assms(1,2) this]
  obtain s' where "cljp_selection_loop n Sp Sj Tp Tj (fst sg) = Some s'"
    by blast
  then show "\<exists>r. cljp_naive_splitting vertex_coloring_mis srand rand RAND_MAX g n Sp Sj Tp Tj colorflag = Some r"
    unfolding cljp_naive_splitting_def using init by simp
next
  fix s :: "rat cljp_state"
  assume a: "cljp_inv n s \<and> 0 < cs_unassigned s"
  then have len: "length (cs_splitting s) = n"
    and un: "cs_unassigned s = int (card (U_set (cs_splitting s)))"
    by (simp_all add: cljp_inv_def)
  have "U_set (cs_splitting s) \<noteq> {}"
    using a un by auto
  from cljp_maximal_exists[OF len this] obtain i where i: "i < n" "cs_splitting s ! i = U_NODE"
    and mx: "\<forall>j < n. cs_splitting s ! j = U_NODE \<longrightarrow> cs_weight s ! j \<le> cs_weight s ! i"
    by blast
  have "cljp_selected Sp Sj Tp Tj s i"
    using mx by (intro cljp_selected_maximal[OF assms(1,2) i]) simp
  then have "i \<in> set (fst (cljp_select n Sp Sj Tp Tj s))"
    using i(1) by (simp add: cljp_select_filter)
  then show "\<exists>i \<in> set (fst (cljp_select n Sp Sj Tp Tj s)). cs_splitting s ! i = U_NODE \<and>
               (\<forall>j < n. cs_splitting s ! j = U_NODE \<longrightarrow> cs_weight s ! j \<le> cs_weight s ! i)"
    using i(2) mx by blast
  show "cljp_inv n (cljp_round n Sp Sj Tp Tj s)"
    and "cs_unassigned (cljp_round n Sp Sj Tp Tj s) < cs_unassigned s"
    using cljp_round_inv[OF assms(1,2), of s] a by blast+
qed

lemma cljp_naive_splitting_terminates_example:
  "csr_pattern_wf 5 [0, 2, 5, 8, 11, 13] [0, 1, 0, 1, 2, 1, 2, 3, 2, 3, 4, 3, 4] \<and>
   (\<exists>r. cljp_naive_splitting (\<lambda>n Sp Sj. [0, 1, 0, 1, 0]) (\<lambda>seed. ()) (\<lambda>g. (0, g)) 32767 () 5
          [0, 2, 5, 8, 11, 13] [0, 1, 0, 1, 2, 1, 2, 3, 2, 3, 4, 3, 4]
          [0, 2, 5, 8, 11, 13] [0, 1, 0, 1, 2, 1, 2, 3, 2, 3, 4, 3, 4] 1 = Some r)"
proof -
  have wf: "csr_pattern_wf 5 [0, 2, 5, 8, 11, 13] [0, 1, 0, 1, 2, 1, 2, 3, 2, 3, 4, 3, 4]"
    by (simp add: csr_pattern_wf_def)
  have pos: "0 < (5::nat) \<or> (1::int) \<noteq> 1"
    by simp
  show ?thesis
    using cljp_naive_splitting_terminates[OF wf wf pos, of "\<lambda>n Sp Sj. [0, 1, 0, 1, 0]" "\<lambda>seed. ()"
        "\<lambda>g. (0, g)" 32767 "()"] wf
    by blast
qed

text \<open>
  Claim C7 says that \<^verbatim>\<open>cljp_naive_splitting\<close> terminates on every well-formed input.
  The selection loop does (\<open>cljp_naive_splitting_terminates\<close>), but the empty input
  (\<open>n = 0\<close>, \<open>Sp = Tp = [0]\<close>) with \<open>colorflag = 1\<close> never reaches it: the vector
  \<^verbatim>\<open>coloring\<close> is empty, \<^verbatim>\<open>std::max_element\<close> returns its end, and the kernel
  dereferences it to compute \<^verbatim>\<open>ncolors\<close>. The other branch, which draws random weights,
  passes the same empty input through and returns the empty splitting.
\<close>

theorem cljp_naive_splitting_empty_coloring:
  "csr_pattern_wf 0 [0] [] \<and>
   cljp_naive_splitting vertex_coloring_mis srand rand RAND_MAX g 0 [0] [] [0] [] 1 = None \<and>
   cljp_naive_splitting vertex_coloring_mis srand rand RAND_MAX g 0 [0] [] [0] [] 0 =
     Some ([], srand 2448422)"
proof -
  have wf: "csr_pattern_wf 0 [0] []"
    by (simp add: csr_pattern_wf_def)
  have col: "cljp_naive_splitting vertex_coloring_mis srand rand RAND_MAX g 0 [0] [] [0] [] 1 = None"
    by (simp add: cljp_naive_splitting_def cljp_initial_state_def cljp_initial_weights_def
        cljp_color_weights_def)
  have init: "(cljp_initial_state vertex_coloring_mis srand rand RAND_MAX g 0 [0] [] 0
                 :: (rat cljp_state \<times> 'a) option) =
      Some (\<lparr>cs_splitting = [], cs_weight = [], cs_edgemark = [], cs_c_dep_cache = [],
             cs_unassigned = 0\<rparr>, srand 2448422)"
    by (simp add: cljp_initial_state_def cljp_initial_weights_def cljp_add_degrees_def)
  have loop: "cljp_selection_loop 0 [0] [] [0] []
        \<lparr>cs_splitting = [], cs_weight = [] :: rat list, cs_edgemark = [], cs_c_dep_cache = [],
         cs_unassigned = 0\<rparr> =
      Some \<lparr>cs_splitting = [], cs_weight = [], cs_edgemark = [], cs_c_dep_cache = [],
            cs_unassigned = 0\<rparr>"
    by (subst cljp_selection_loop.simps) simp
  have rnd: "cljp_naive_splitting vertex_coloring_mis srand rand RAND_MAX g 0 [0] [] [0] [] 0 =
     Some ([], srand 2448422)"
    unfolding cljp_naive_splitting_def init by (simp add: loop)
  show ?thesis
    using wf col rnd by (intro conjI)
qed

text \<open>
  The generator of the C library is the one piece of state outside its arguments that a
  kernel of this file touches. \<^verbatim>\<open>cljp_naive_splitting\<close> reseeds it with 2448422 before
  drawing (\<open>colorflag \<noteq> 1\<close>) or does not draw at all (\<open>colorflag = 1\<close>). So the splitting
  does not depend on the state \<open>g\<close> of the generator at the call, and a second call,
  started in the state the first one left, returns the same splitting. (This is the part
  of claim C8 that has content here: every kernel is a function of its arguments in
  this embedding, so that equal arguments give equal results says nothing about it.)
\<close>

lemma cljp_naive_splitting_reseeds:
  "map_option fst (cljp_naive_splitting vertex_coloring_mis srand rand RAND_MAX g1 n Sp Sj Tp Tj colorflag) =
   map_option fst (cljp_naive_splitting vertex_coloring_mis srand rand RAND_MAX g2 n Sp Sj Tp Tj colorflag) \<and>
   (case cljp_naive_splitting vertex_coloring_mis srand rand RAND_MAX g1 n Sp Sj Tp Tj colorflag of
      None \<Rightarrow> True
    | Some (splitting1, g') \<Rightarrow>
        map_option fst (cljp_naive_splitting vertex_coloring_mis srand rand RAND_MAX g' n Sp Sj Tp Tj colorflag) =
        Some splitting1)"
proof -
  have indep: "map_option fst (cljp_naive_splitting vertex_coloring_mis srand rand RAND_MAX g n Sp Sj Tp Tj colorflag) =
      map_option fst (cljp_naive_splitting vertex_coloring_mis srand rand RAND_MAX h n Sp Sj Tp Tj colorflag)"
    for g h
  proof -
    have "(map_option fst (cljp_initial_state vertex_coloring_mis srand rand RAND_MAX g n Sp Sj colorflag)
            :: rat cljp_state option) =
          map_option fst (cljp_initial_state vertex_coloring_mis srand rand RAND_MAX h n Sp Sj colorflag)"
      by (rule cljp_initial_state_reseeded)
    then show ?thesis
      unfolding cljp_naive_splitting_def
      by (auto simp: map_option_case split: option.splits)
  qed
  show ?thesis
  proof (rule conjI)
    show "map_option fst (cljp_naive_splitting vertex_coloring_mis srand rand RAND_MAX g1 n Sp Sj Tp Tj colorflag) =
      map_option fst (cljp_naive_splitting vertex_coloring_mis srand rand RAND_MAX g2 n Sp Sj Tp Tj colorflag)"
      by (rule indep)
  next
    show "case cljp_naive_splitting vertex_coloring_mis srand rand RAND_MAX g1 n Sp Sj Tp Tj colorflag of
      None \<Rightarrow> True
    | Some (splitting1, g') \<Rightarrow>
        map_option fst (cljp_naive_splitting vertex_coloring_mis srand rand RAND_MAX g' n Sp Sj Tp Tj colorflag) =
        Some splitting1"
    proof (cases "cljp_naive_splitting vertex_coloring_mis srand rand RAND_MAX g1 n Sp Sj Tp Tj colorflag")
      case None
      then show ?thesis by simp
    next
      case (Some r)
      obtain splitting1 g' where r: "r = (splitting1, g')"
        by (cases r)
      have "map_option fst (cljp_naive_splitting vertex_coloring_mis srand rand RAND_MAX g' n Sp Sj Tp Tj colorflag) =
            Some splitting1"
        using indep[of g' g1] Some r by simp
      then show ?thesis
        using Some r by simp
    qed
  qed
qed

text \<open>
  Claim C1 says that a U-node is selected only when its weight is strictly greater than
  the weight of every other U-node it is connected to, so that no two nodes selected in
  one round are adjacent; the comment in the source says the same (\<^verbatim>\<open>w_i > w_j\<close>). The
  two scans block a node only on \<^verbatim>\<open>weight[j] > weight[i]\<close>, so connected U-nodes of
  equal weight are selected together. Here \<open>S\<close> has the rows \<open>{0}\<close>, \<open>{0,1}\<close>, \<open>{1,2}\<close>
  (node 1 depends on node 0, node 2 on node 1), \<open>T\<close> is its transpose, and the colouring
  gives the three nodes one colour: nodes 0 and 1 both have weight 1, the entry \<open>(1, 0)\<close>
  of \<open>S\<close> connects them, and the first round selects both.
\<close>

theorem cljp_select_equal_weights:
  "csr_pattern_wf 3 [0, 1, 3, 5] [0, 0, 1, 1, 2] \<and>
   csr_pattern_wf 3 [0, 2, 4, 5] [0, 1, 1, 2, 2] \<and>
   set (csr_entries 3 [0, 2, 4, 5] [0, 1, 1, 2, 2]) =
     (\<lambda>(i, j). (j, i)) ` set (csr_entries 3 [0, 1, 3, 5] [0, 0, 1, 1, 2]) \<and>
   (1, 0) \<in> set (csr_entries 3 [0, 1, 3, 5] [0, 0, 1, 1, 2]) \<and>
   map_option fst (cljp_initial_state (\<lambda>n Sp Sj. [0, 0, 0]) (\<lambda>seed. ()) (\<lambda>g. (0, g)) 32767 () 3
          [0, 1, 3, 5] [0, 0, 1, 1, 2] 1) =
     Some \<lparr>cs_splitting = [U_NODE, U_NODE, U_NODE], cs_weight = [1, 1, 0::rat],
      cs_edgemark = [1, 1, 1, 1, 1], cs_c_dep_cache = [- 1, - 1, - 1], cs_unassigned = 3\<rparr> \<and>
   fst (cljp_select 3 [0, 1, 3, 5] [0, 0, 1, 1, 2] [0, 2, 4, 5] [0, 1, 1, 2, 2]
     \<lparr>cs_splitting = [U_NODE, U_NODE, U_NODE], cs_weight = [1, 1, 0::rat],
      cs_edgemark = [1, 1, 1, 1, 1], cs_c_dep_cache = [- 1, - 1, - 1], cs_unassigned = 3\<rparr>) = [0, 1] \<and>
   cljp_naive_splitting (\<lambda>n Sp Sj. [0, 0, 0]) (\<lambda>seed. ()) (\<lambda>g. (0, g)) 32767 () 3
     [0, 1, 3, 5] [0, 0, 1, 1, 2] [0, 2, 4, 5] [0, 1, 1, 2, 2] 1 = Some ([C_NODE, C_NODE, F_NODE], ())"
proof -
  have wf: "csr_pattern_wf 3 [0, 1, 3, 5] [0, 0, 1, 1, 2]" "csr_pattern_wf 3 [0, 2, 4, 5] [0, 1, 1, 2, 2]"
    by (simp_all add: csr_pattern_wf_def)
  have S: "csr_entries 3 [0, 1, 3, 5] [0, 0, 1, 1, 2] = [(0, 0), (1, 0), (1, 1), (2, 1), (2, 2)]"
    by code_simp
  have T: "csr_entries 3 [0, 2, 4, 5] [0, 1, 1, 2, 2] = [(0, 0), (0, 1), (1, 1), (1, 2), (2, 2)]"
    by code_simp
  have tr: "set (csr_entries 3 [0, 2, 4, 5] [0, 1, 1, 2, 2]) =
     (\<lambda>(i, j). (j, i)) ` set (csr_entries 3 [0, 1, 3, 5] [0, 0, 1, 1, 2])"
    unfolding S T by auto
  have adj: "(1, 0) \<in> set (csr_entries 3 [0, 1, 3, 5] [0, 0, 1, 1, 2])"
    unfolding S by simp
  have init: "map_option fst (cljp_initial_state (\<lambda>n Sp Sj. [0, 0, 0]) (\<lambda>seed. ()) (\<lambda>g. (0, g)) 32767 () 3
          [0, 1, 3, 5] [0, 0, 1, 1, 2] 1) =
     Some \<lparr>cs_splitting = [U_NODE, U_NODE, U_NODE], cs_weight = [1, 1, 0::rat],
      cs_edgemark = [1, 1, 1, 1, 1], cs_c_dep_cache = [- 1, - 1, - 1], cs_unassigned = 3\<rparr>"
    by code_simp
  have sel: "fst (cljp_select 3 [0, 1, 3, 5] [0, 0, 1, 1, 2] [0, 2, 4, 5] [0, 1, 1, 2, 2]
     \<lparr>cs_splitting = [U_NODE, U_NODE, U_NODE], cs_weight = [1, 1, 0::rat],
      cs_edgemark = [1, 1, 1, 1, 1], cs_c_dep_cache = [- 1, - 1, - 1], cs_unassigned = 3\<rparr>) = [0, 1]"
    by code_simp
  have run: "cljp_naive_splitting (\<lambda>n Sp Sj. [0, 0, 0]) (\<lambda>seed. ()) (\<lambda>g. (0, g)) 32767 () 3
     [0, 1, 3, 5] [0, 0, 1, 1, 2] [0, 2, 4, 5] [0, 1, 1, 2, 2] 1 = Some ([C_NODE, C_NODE, F_NODE], ())"
    by code_simp
  show ?thesis
    using wf tr adj init sel run by (intro conjI)
qed

section \<open>Ruge-Stuben splitting: nodes without neighbours\<close>




















text \<open>
  Claim C4 holds for \<^verbatim>\<open>cljp_naive_splitting\<close> (\<open>cljp_naive_splitting_tags\<close> above) and
  fails for \<^verbatim>\<open>rs_cf_splitting\<close>. The intervals are set up for \<open>lambda < n_nodes\<close>
  (\<^verbatim>\<open>interval_ptr[n_nodes]\<close> is never set and \<^verbatim>\<open>interval_count[n_nodes]\<close> never reset),
  and a node whose row of the transpose holds all \<open>n_nodes\<close> nodes, itself included, has
  \<open>lambda = n_nodes\<close>. In the pattern with rows \<open>{0,1}\<close>, \<open>{1}\<close>, \<open>{1,2}\<close> (nodes 0 and 2
  depend on node 1) node 1 is placed at index 1, where node 2 then overwrites it; no
  read or write leaves its vector, no assertion fails (so in either build), the main loop
  never visits node 1, and the kernel returns with node 1 still tagged U.
\<close>

theorem rs_cf_splitting_returns_U:
  "csr_pattern_wf 3 [0, 2, 3, 5] [0, 1, 1, 1, 2] \<and>
   csr_pattern_wf 3 [0, 1, 4, 5] [0, 0, 1, 2, 2] \<and>
   set (csr_entries 3 [0, 1, 4, 5] [0, 0, 1, 2, 2]) =
     (\<lambda>(i, j). (j, i)) ` set (csr_entries 3 [0, 2, 3, 5] [0, 1, 1, 1, 2]) \<and>
   rs_cf_splitting NDEBUG 3 [0, 2, 3, 5] [0, 1, 1, 1, 2] [0, 1, 4, 5] [0, 0, 1, 2, 2] =
     Some [F_NODE, U_NODE, F_NODE]"
proof -
  have wf: "csr_pattern_wf 3 [0, 2, 3, 5] [0, 1, 1, 1, 2]" "csr_pattern_wf 3 [0, 1, 4, 5] [0, 0, 1, 2, 2]"
    by (simp_all add: csr_pattern_wf_def)
  have S: "csr_entries 3 [0, 2, 3, 5] [0, 1, 1, 1, 2] = [(0, 0), (0, 1), (1, 1), (2, 1), (2, 2)]"
    by code_simp
  have T: "csr_entries 3 [0, 1, 4, 5] [0, 0, 1, 2, 2] = [(0, 0), (1, 0), (1, 1), (1, 2), (2, 2)]"
    by code_simp
  have tr: "set (csr_entries 3 [0, 1, 4, 5] [0, 0, 1, 2, 2]) =
     (\<lambda>(i, j). (j, i)) ` set (csr_entries 3 [0, 2, 3, 5] [0, 1, 1, 1, 2])"
    unfolding S T by auto
  have run: "rs_cf_splitting NDEBUG 3 [0, 2, 3, 5] [0, 1, 1, 1, 2] [0, 1, 4, 5] [0, 0, 1, 2, 2] =
     Some [F_NODE, U_NODE, F_NODE]"
    by code_simp
  show ?thesis
    using wf tr run by (intro conjI)
qed

end
